theory Spec2Isabelle
  imports Main "HOL-Library.Word" "HOL-Library.Sublist"
begin

unbundle bit_operations_syntax

section \<open>Strings of the host language\<close>

text \<open>
  A JavaScript string is a sequence of 16-bit code units; a response body is a sequence
  of bytes. String literals of the source are written through \<open>lit\<close>.
\<close>

type_synonym byte = "8 word"
type_synonym jsstring = "16 word list"

definition lit :: "string \<Rightarrow> jsstring" where
  "lit s = map of_char s"

text \<open>\<open>String.prototype.trim\<close>: white space and line terminators of ECMAScript.\<close>

definition isWhiteSpace :: "16 word \<Rightarrow> bool" where
  "isWhiteSpace c \<longleftrightarrow>
     c = 0x09 \<or> c = 0x0A \<or> c = 0x0B \<or> c = 0x0C \<or> c = 0x0D \<or> c = 0x20 \<or> c = 0xA0 \<or>
     c = 0x1680 \<or> (0x2000 \<le> c \<and> c \<le> 0x200A) \<or> c = 0x2028 \<or> c = 0x2029 \<or>
     c = 0x202F \<or> c = 0x205F \<or> c = 0x3000 \<or> c = 0xFEFF"

definition trim :: "jsstring \<Rightarrow> jsstring" where
  "trim s = rev (dropWhile isWhiteSpace (rev (dropWhile isWhiteSpace s)))"

text \<open>
  \<open>s.startsWith(p)\<close>, \<open>s.slice(n)\<close> for \<open>0 \<le> n\<close>, and \<open>s.includes(p)\<close>, which is
  \<open>includes_str s p\<close>.
\<close>

definition startsWith :: "jsstring \<Rightarrow> jsstring \<Rightarrow> bool" where
  "startsWith s p = prefix p s"

definition slice :: "nat \<Rightarrow> jsstring \<Rightarrow> jsstring" where
  "slice n s = drop n s"

fun includes_str :: "jsstring \<Rightarrow> jsstring \<Rightarrow> bool" where
  "includes_str [] p = (p = [])"
| "includes_str (c # cs) p = (prefix p (c # cs) \<or> includes_str cs p)"

text \<open>
  \<open>s.split(sep)\<close>: the pieces between the occurrences of \<open>sep\<close>, found from the left
  and not overlapping. An empty separator splits into code units.
\<close>

function splitOn :: "'a list \<Rightarrow> 'a list \<Rightarrow> 'a list list" where
  "splitOn sep [] = [[]]"
| "splitOn sep (c # cs) =
     (if sep \<noteq> [] \<and> prefix sep (c # cs)
      then [] # splitOn sep (drop (length sep) (c # cs))
      else (case splitOn sep cs of
              [] \<Rightarrow> [[c]]
            | p # ps \<Rightarrow> (c # p) # ps))"
  by pat_completeness auto
termination
  by (relation "measure (\<lambda>(sep, s). length s)") (auto simp: neq_Nil_conv)

definition split :: "jsstring \<Rightarrow> jsstring \<Rightarrow> jsstring list" where
  "split s sep = (if sep = [] then map (\<lambda>c. [c]) s else splitOn sep s)"

text \<open>\<open>Array.prototype.pop\<close>: the last element (\<open>undefined\<close> on an empty array) and the rest.\<close>

definition pop :: "'a list \<Rightarrow> 'a option \<times> 'a list" where
  "pop xs = (if xs = [] then (None, []) else (Some (last xs), butlast xs))"

text \<open>Decimal rendering of a non-negative integer, as a template literal prints it.\<close>

function decimal :: "nat \<Rightarrow> jsstring" where
  "decimal n = (if n < 10 then [48 + of_nat n] else decimal (n div 10) @ [48 + of_nat (n mod 10)])"
  by pat_completeness auto
termination
  by (relation "measure id") auto

declare decimal.simps [simp del]

definition blankLine :: jsstring where
  "blankLine = [0x0A, 0x0A]"

section \<open>Values of the host language\<close>

text \<open>
  The values \<open>JSON.parse\<close> can return, and \<open>undefined\<close>, which reading a missing
  property gives. A Number is kept by what this program can observe of it: whether it
  is zero (the only falsy numbers a JSON text denotes), and its rendering as a string.
\<close>

datatype jsval =
    JUndefined
  | JNull
  | JBool bool
  | JNum (isZero: bool) (rendering: jsstring)
  | JStr jsstring
  | JArr "jsval list"
  | JObj "(jsstring \<times> jsval) list"

text \<open>\<open>if (v)\<close>: the truthiness of a value.\<close>

fun truthy :: "jsval \<Rightarrow> bool" where
  "truthy JUndefined = False"
| "truthy JNull = False"
| "truthy (JBool b) = b"
| "truthy (JNum z r) = (\<not> z)"
| "truthy (JStr s) = (s \<noteq> [])"
| "truthy (JArr vs) = True"
| "truthy (JObj kvs) = True"

fun join :: "jsstring \<Rightarrow> jsstring list \<Rightarrow> jsstring" where
  "join sep [] = []"
| "join sep [x] = x"
| "join sep (x # y # ys) = x @ sep @ join sep (y # ys)"

text \<open>
  The string a template literal or a concatenation with a string makes of a value;
  \<open>None\<close> when the conversion throws a TypeError. An object converts through its
  \<open>toString\<close> and \<open>valueOf\<close> properties: the inherited ones give \<open>[object Object]\<close>, but
  a property of its own named \<open>toString\<close> hides the inherited function, is not callable
  (no parsed value is), and then no step yields a primitive: the conversion throws. An
  array joins its elements with commas, \<open>null\<close> and \<open>undefined\<close> elements as empty
  strings, and throws when the conversion of an element does.
\<close>

fun toString :: "jsval \<Rightarrow> jsstring option" where
  "toString JUndefined = Some (lit ''undefined'')"
| "toString JNull = Some (lit ''null'')"
| "toString (JBool b) = Some (if b then lit ''true'' else lit ''false'')"
| "toString (JNum z r) = Some r"
| "toString (JStr s) = Some s"
| "toString (JArr vs) =
     map_option (join (lit '',''))
       (those (map (\<lambda>v. if v = JUndefined \<or> v = JNull then Some [] else toString v) vs))"
| "toString (JObj kvs) =
     (if lit ''toString'' \<in> set (map fst kvs) then None else Some (lit ''[object Object]''))"

text \<open>
  \<open>v.k\<close> for the keys this program reads (\<open>error\<close>, \<open>token\<close>), which no built-in
  prototype defines: \<open>None\<close> when the access throws a TypeError (\<open>v\<close> is \<open>null\<close> or
  \<open>undefined\<close>), the own property of an object (the last of duplicate keys), and
  \<open>undefined\<close> otherwise.
\<close>

fun getProp :: "jsval \<Rightarrow> jsstring \<Rightarrow> jsval option" where
  "getProp JUndefined k = None"
| "getProp JNull k = None"
| "getProp (JObj kvs) k =
     Some (case map_of (rev kvs) k of None \<Rightarrow> JUndefined | Some v \<Rightarrow> v)"
| "getProp v k = Some JUndefined"

section \<open>The streaming text decoder\<close>

text \<open>
  \<open>new TextDecoder()\<close> decodes UTF-8. The decoder of the Encoding Standard keeps a code
  point under construction, the number of continuation bytes seen and needed, and the
  bounds the next continuation byte must lie in. A byte out of place yields U+FFFD and
  is read again from the initial state.
\<close>

record utf8_decoder =
  codePoint :: nat
  bytesSeen :: nat
  bytesNeeded :: nat
  lowerBoundary :: byte
  upperBoundary :: byte

definition utf8_initial :: utf8_decoder where
  "utf8_initial =
     \<lparr>codePoint = 0, bytesSeen = 0, bytesNeeded = 0, lowerBoundary = 0x80, upperBoundary = 0xBF\<rparr>"

definition utf8_lead :: "utf8_decoder \<Rightarrow> byte \<Rightarrow> utf8_decoder \<times> nat list" where
  "utf8_lead d b =
     (if b \<le> 0x7F then (d, [unat b])
      else if 0xC2 \<le> b \<and> b \<le> 0xDF then
        (d\<lparr>bytesNeeded := 1, codePoint := unat (b AND 0x1F)\<rparr>, [])
      else if 0xE0 \<le> b \<and> b \<le> 0xEF then
        (d\<lparr>lowerBoundary := (if b = 0xE0 then 0xA0 else lowerBoundary d),
           upperBoundary := (if b = 0xED then 0x9F else upperBoundary d),
           bytesNeeded := 2, codePoint := unat (b AND 0xF)\<rparr>, [])
      else if 0xF0 \<le> b \<and> b \<le> 0xF4 then
        (d\<lparr>lowerBoundary := (if b = 0xF0 then 0x90 else lowerBoundary d),
           upperBoundary := (if b = 0xF4 then 0x8F else upperBoundary d),
           bytesNeeded := 3, codePoint := unat (b AND 0x7)\<rparr>, [])
      else (d, [0xFFFD]))"

definition utf8_handler :: "utf8_decoder \<Rightarrow> byte \<Rightarrow> utf8_decoder \<times> nat list" where
  "utf8_handler d b =
     (if bytesNeeded d = 0 then utf8_lead d b
      else if \<not> (lowerBoundary d \<le> b \<and> b \<le> upperBoundary d) then
        (let (d', out) = utf8_lead utf8_initial b in (d', 0xFFFD # out))
      else
        (let d1 = d\<lparr>lowerBoundary := 0x80, upperBoundary := 0xBF,
                     codePoint := codePoint d * 64 + unat (b AND 0x3F),
                     bytesSeen := bytesSeen d + 1\<rparr>
         in if bytesSeen d1 \<noteq> bytesNeeded d1 then (d1, [])
            else (utf8_initial, [codePoint d1])))"

text \<open>A code point as UTF-16 code units.\<close>

definition utf16 :: "nat \<Rightarrow> jsstring" where
  "utf16 cp =
     (if cp < 0x10000 then [of_nat cp]
      else [0xD800 + of_nat ((cp - 0x10000) div 0x400),
            0xDC00 + of_nat ((cp - 0x10000) mod 0x400)])"

text \<open>
  The decoder object: the UTF-8 state and whether the byte order mark has been looked
  for. The first code point of the stream is dropped when it is U+FEFF.
\<close>

record TextDecoder =
  utf8 :: utf8_decoder
  bomSeen :: bool

definition newTextDecoder :: TextDecoder where
  "newTextDecoder = \<lparr>utf8 = utf8_initial, bomSeen = False\<rparr>"

fun serialize :: "bool \<Rightarrow> nat list \<Rightarrow> bool \<times> jsstring" where
  "serialize seen [] = (seen, [])"
| "serialize seen (cp # cps) =
     (let (seen', s) = serialize True cps
      in (seen', (if \<not> seen \<and> cp = 0xFEFF then [] else utf16 cp) @ s))"

text \<open>
  \<open>decoder.decode(value, { stream: true })\<close>: the text of the bytes of \<open>value\<close>, and the
  decoder as the call leaves it. An incomplete sequence at the end of \<open>value\<close> stays in
  the decoder for the next call.
\<close>

fun decode :: "TextDecoder \<Rightarrow> byte list \<Rightarrow> jsstring \<times> TextDecoder" where
  "decode d [] = ([], d)"
| "decode d (b # bs) =
     (let (u, cps) = utf8_handler (utf8 d) b;
          (seen, s) = serialize (bomSeen d) cps;
          (s', d') = decode \<lparr>utf8 = u, bomSeen = seen\<rparr> bs
      in (s @ s', d'))"

section \<open>A reader of JSON texts\<close>

text \<open>
  \<open>JSON.parse\<close> is a parameter of the model. To run the model on concrete event streams
  it is instantiated with the reader below, which follows the JSON grammar: one pass over
  the code units, a lexer mode and a stack of the containers that are open. A Number is
  zero when its literal denotes zero or a value that rounds to zero as a double (at
  most \<open>2\<^sup>-\<^sup>1\<^sup>0\<^sup>7\<^sup>5\<close>); its rendering is exact for integer
  literals of at most 15 digits, and is the literal as written otherwise.
\<close>

datatype token = LBrace | RBrace | LBracket | RBracket | Colon | Comma | Lit jsval

datatype frame =
    ArrFrame "jsval list"
  | ObjFrame "(jsstring \<times> jsval) list" "jsstring option"

datatype phase =
    ExpValue | ExpValueOrEnd | ExpKeyOrEnd | ExpKey | ExpColon | ExpCommaOrEnd
  | Finished jsval

type_synonym pstate = "frame list \<times> phase"

fun gotValue :: "jsval \<Rightarrow> frame list \<Rightarrow> pstate option" where
  "gotValue v [] = Some ([], Finished v)"
| "gotValue v (ArrFrame els # fs) = Some (ArrFrame (v # els) # fs, ExpCommaOrEnd)"
| "gotValue v (ObjFrame kvs (Some k) # fs) =
     Some (ObjFrame ((k, v) # kvs) None # fs, ExpCommaOrEnd)"
| "gotValue v (ObjFrame kvs None # fs) = None"

fun wantsValue :: "phase \<Rightarrow> bool" where
  "wantsValue ExpValue = True"
| "wantsValue ExpValueOrEnd = True"
| "wantsValue ph = False"

fun wantsKey :: "phase \<Rightarrow> bool" where
  "wantsKey ExpKeyOrEnd = True"
| "wantsKey ExpKey = True"
| "wantsKey ph = False"

fun keyFrame :: "jsval \<Rightarrow> frame list \<Rightarrow> pstate option" where
  "keyFrame (JStr k) (ObjFrame kvs None # fs) = Some (ObjFrame kvs (Some k) # fs, ExpColon)"
| "keyFrame v fs = None"

fun closeArr :: "frame list \<Rightarrow> pstate option" where
  "closeArr (ArrFrame els # fs) = gotValue (JArr (rev els)) fs"
| "closeArr fs = None"

fun closeObj :: "frame list \<Rightarrow> pstate option" where
  "closeObj (ObjFrame kvs None # fs) = gotValue (JObj (rev kvs)) fs"
| "closeObj fs = None"

fun afterComma :: "frame list \<Rightarrow> pstate option" where
  "afterComma (ArrFrame els # fs) = Some (ArrFrame els # fs, ExpValue)"
| "afterComma (ObjFrame kvs None # fs) = Some (ObjFrame kvs None # fs, ExpKey)"
| "afterComma fs = None"

fun shift :: "token \<Rightarrow> pstate \<Rightarrow> pstate option" where
  "shift (Lit v) (fs, ph) =
     (if wantsValue ph then gotValue v fs
      else if wantsKey ph then keyFrame v fs
      else None)"
| "shift LBracket (fs, ph) =
     (if wantsValue ph then Some (ArrFrame [] # fs, ExpValueOrEnd) else None)"
| "shift LBrace (fs, ph) =
     (if wantsValue ph then Some (ObjFrame [] None # fs, ExpKeyOrEnd) else None)"
| "shift RBracket (fs, ph) =
     (if ph = ExpValueOrEnd \<or> ph = ExpCommaOrEnd then closeArr fs else None)"
| "shift RBrace (fs, ph) =
     (if ph = ExpKeyOrEnd \<or> ph = ExpCommaOrEnd then closeObj fs else None)"
| "shift Comma (fs, ph) = (if ph = ExpCommaOrEnd then afterComma fs else None)"
| "shift Colon (fs, ph) = (if ph = ExpColon then Some (fs, ExpValue) else None)"

definition isDigit :: "16 word \<Rightarrow> bool" where
  "isDigit c \<longleftrightarrow> 0x30 \<le> c \<and> c \<le> 0x39"

definition isLower :: "16 word \<Rightarrow> bool" where
  "isLower c \<longleftrightarrow> 0x61 \<le> c \<and> c \<le> 0x7A"

definition isNumberChar :: "16 word \<Rightarrow> bool" where
  "isNumberChar c \<longleftrightarrow> isDigit c \<or> c = 0x2B \<or> c = 0x2D \<or> c = 0x2E \<or> c = 0x45 \<or> c = 0x65"

definition hexDigit :: "16 word \<Rightarrow> nat option" where
  "hexDigit c =
     (if isDigit c then Some (unat c - 0x30)
      else if 0x41 \<le> c \<and> c \<le> 0x46 then Some (unat c - 0x41 + 10)
      else if 0x61 \<le> c \<and> c \<le> 0x66 then Some (unat c - 0x61 + 10)
      else None)"

fun digitsValue :: "nat \<Rightarrow> jsstring \<Rightarrow> nat" where
  "digitsValue acc [] = acc"
| "digitsValue acc (c # cs) = digitsValue (acc * 10 + (unat c - 0x30)) cs"

text \<open>
  A number literal, split into sign, integer digits, fraction digits and exponent, each
  checked against the grammar.
\<close>

definition number :: "jsstring \<Rightarrow> jsval option" where
  "number l =
     (let (neg, l1) = (case l of c # cs \<Rightarrow> if c = 0x2D then (True, cs) else (False, l) | [] \<Rightarrow> (False, l));
          ip = takeWhile isDigit l1;
          r1 = dropWhile isDigit l1;
          (hasFrac, r1') = (case r1 of c # cs \<Rightarrow> if c = 0x2E then (True, cs) else (False, r1) | [] \<Rightarrow> (False, r1));
          fp = (if hasFrac then takeWhile isDigit r1' else []);
          r2 = (if hasFrac then dropWhile isDigit r1' else r1');
          (hasExp, r2') = (case r2 of c # cs \<Rightarrow> if c = 0x45 \<or> c = 0x65 then (True, cs) else (False, r2) | [] \<Rightarrow> (False, r2));
          (expNeg, r3) = (case r2' of c # cs \<Rightarrow>
                             if hasExp \<and> c = 0x2D then (True, cs)
                             else if hasExp \<and> c = 0x2B then (False, cs) else (False, r2')
                          | [] \<Rightarrow> (False, r2'));
          ep = (if hasExp then takeWhile isDigit r3 else []);
          r4 = (if hasExp then dropWhile isDigit r3 else r3);
          m = digitsValue 0 (ip @ fp);
          e = (if expNeg then - int (digitsValue 0 ep) else int (digitsValue 0 ep)) - int (length fp);
          zero = (m = 0 \<or> (e < 0 \<and> m * 2 ^ 1075 \<le> 10 ^ nat (- e)))
      in if ip = [] \<or> (1 < length ip \<and> hd ip = 0x30) \<or> (hasFrac \<and> fp = []) \<or>
            (hasExp \<and> ep = []) \<or> r4 \<noteq> []
         then None
         else Some (JNum zero
                 (if \<not> hasFrac \<and> \<not> hasExp \<and> length ip \<le> 15
                  then (if neg \<and> m \<noteq> 0 then 0x2D # ip else ip)
                  else l)))"

datatype lexmode =
    Idle
  | InStr jsstring
  | InEsc jsstring
  | InHex jsstring nat nat
  | InNum jsstring
  | InWord jsstring

text \<open>The token a pending number or word makes when the lexeme ends.\<close>

fun flush :: "lexmode \<Rightarrow> pstate \<Rightarrow> pstate option" where
  "flush Idle ps = Some ps"
| "flush (InNum l) ps = (case number (rev l) of None \<Rightarrow> None | Some v \<Rightarrow> shift (Lit v) ps)"
| "flush (InWord w) ps =
     (if rev w = lit ''true'' then shift (Lit (JBool True)) ps
      else if rev w = lit ''false'' then shift (Lit (JBool False)) ps
      else if rev w = lit ''null'' then shift (Lit JNull) ps
      else None)"
| "flush m ps = None"

definition idleStep :: "16 word \<Rightarrow> pstate \<Rightarrow> (lexmode \<times> pstate) option" where
  "idleStep c ps =
     (if c = 0x20 \<or> c = 0x09 \<or> c = 0x0A \<or> c = 0x0D then Some (Idle, ps)
      else if c = 0x22 then Some (InStr [], ps)
      else if c = 0x2D \<or> isDigit c then Some (InNum [c], ps)
      else if isLower c then Some (InWord [c], ps)
      else map_option (Pair Idle)
             (if c = 0x7B then shift LBrace ps
              else if c = 0x7D then shift RBrace ps
              else if c = 0x5B then shift LBracket ps
              else if c = 0x5D then shift RBracket ps
              else if c = 0x3A then shift Colon ps
              else if c = 0x2C then shift Comma ps
              else None))"

fun lexStep :: "16 word \<Rightarrow> lexmode \<Rightarrow> pstate \<Rightarrow> (lexmode \<times> pstate) option" where
  "lexStep c Idle ps = idleStep c ps"
| "lexStep c (InStr acc) ps =
     (if c = 0x22 then map_option (Pair Idle) (shift (Lit (JStr (rev acc))) ps)
      else if c = 0x5C then Some (InEsc acc, ps)
      else if c < 0x20 then None
      else Some (InStr (c # acc), ps))"
| "lexStep c (InEsc acc) ps =
     (if c = 0x22 \<or> c = 0x5C \<or> c = 0x2F then Some (InStr (c # acc), ps)
      else if c = 0x62 then Some (InStr (0x08 # acc), ps)
      else if c = 0x66 then Some (InStr (0x0C # acc), ps)
      else if c = 0x6E then Some (InStr (0x0A # acc), ps)
      else if c = 0x72 then Some (InStr (0x0D # acc), ps)
      else if c = 0x74 then Some (InStr (0x09 # acc), ps)
      else if c = 0x75 then Some (InHex acc 0 0, ps)
      else None)"
| "lexStep c (InHex acc n v) ps =
     (case hexDigit c of
        None \<Rightarrow> None
      | Some d \<Rightarrow>
          if n = 3 then Some (InStr (of_nat (v * 16 + d) # acc), ps)
          else Some (InHex acc (n + 1) (v * 16 + d), ps))"
| "lexStep c (InNum l) ps =
     (if isNumberChar c then Some (InNum (c # l), ps)
      else (case flush (InNum l) ps of None \<Rightarrow> None | Some ps' \<Rightarrow> idleStep c ps'))"
| "lexStep c (InWord w) ps =
     (if isLower c then Some (InWord (c # w), ps)
      else (case flush (InWord w) ps of None \<Rightarrow> None | Some ps' \<Rightarrow> idleStep c ps'))"

fun lexAll :: "jsstring \<Rightarrow> lexmode \<Rightarrow> pstate \<Rightarrow> (lexmode \<times> pstate) option" where
  "lexAll [] m ps = Some (m, ps)"
| "lexAll (c # cs) m ps =
     (case lexStep c m ps of None \<Rightarrow> None | Some (m', ps') \<Rightarrow> lexAll cs m' ps')"

definition parseJSON :: "jsstring \<Rightarrow> jsval option" where
  "parseJSON s =
     (case lexAll s Idle ([], ExpValue) of
        None \<Rightarrow> None
      | Some (m, ps) \<Rightarrow>
          (case flush m ps of
             Some ([], Finished v) \<Rightarrow> Some v
           | _ \<Rightarrow> None))"

section \<open>The chat state\<close>

text \<open>A message of the transcript. Its field \<open>id\<close> is \<open>ident\<close> here.\<close>

datatype Role = User | Assistant

record ChatMessage =
  ident :: jsstring
  role :: Role
  content :: jsstring
  createdAt :: nat

text \<open>
  The state of the component that \<open>send\<close> and \<open>clearChat\<close> read and write. The error
  banner is typed \<open>string | null\<close>; \<open>send\<close> also stores there a field of a parsed event,
  which is any value, so the banner is a value and \<open>JNull\<close> is \<open>null\<close>.
\<close>

record AppState =
  input :: jsstring
  messages :: "ChatMessage list"
  isSending :: bool
  error :: jsval
  documentId :: "jsstring option"

text \<open>
  What one call of \<open>addMessage\<close> draws from the clock and the random generator: the
  identifier of the message and its creation time.
\<close>

type_synonym stamp = "jsstring \<times> nat"

definition addMessage :: "stamp \<Rightarrow> Role \<Rightarrow> jsstring \<Rightarrow> AppState \<Rightarrow> jsstring \<times> AppState" where
  "addMessage stamp r c st =
     (let msg = \<lparr>ident = fst stamp, role = r, content = c, createdAt = snd stamp\<rparr>
      in (ident msg, st\<lparr>messages := messages st @ [msg]\<rparr>))"

datatype contentOrUpdater = Content jsstring | Updater "jsstring \<Rightarrow> jsstring"

definition updateMessage :: "jsstring \<Rightarrow> contentOrUpdater \<Rightarrow> AppState \<Rightarrow> AppState" where
  "updateMessage i cu st =
     st\<lparr>messages :=
          map (\<lambda>m. if ident m = i
                    then m\<lparr>content := (case cu of Updater f \<Rightarrow> f (content m) | Content c \<Rightarrow> c)\<rparr>
                    else m)
              (messages st)\<rparr>"

text \<open>\<open>clearChat\<close>, the same in both versions of the component.\<close>

definition clearChat :: "AppState \<Rightarrow> AppState" where
  "clearChat st = st\<lparr>error := JNull, messages := [], input := []\<rparr>"

section \<open>The network\<close>

text \<open>
  An awaited promise resolves with a value or rejects. A rejection is kept by the
  message the \<open>catch\<close> block of \<open>send\<close> derives from the thrown value (\<open>e.message\<close> of an
  Error, \<open>String(e)\<close> of anything else).
\<close>

datatype 'a promise = Resolved 'a | Rejected jsstring

text \<open>
  The body of a response as its reader delivers it: the chunks in order, then either the
  end of the data or a failing read. A body whose reads never end is not a value of this
  type: \<open>send\<close> does not return on it.
\<close>

datatype stream_end = EndOfData | ReadFailure jsstring

record ReadableStream =
  chunks :: "byte list list"
  ending :: stream_end

text \<open>
  The declared type of the single-shot reply, \<open>{ answer?: string }\<close>: \<open>None\<close> is a
  missing \<open>answer\<close>, for which \<open>??\<close> gives the fallback.
\<close>

record AnswerBody =
  answer :: "jsstring option"

text \<open>
  A response, by what \<open>send\<close> asks of it: the status, the \<open>content-type\<close> header
  (\<open>None\<close> when absent), the outcome of \<open>res.text()\<close>, the outcome of \<open>res.json()\<close> at its
  declared type, and the body stream (\<open>None\<close> for a null body).
\<close>

record Response =
  status :: nat
  contentType :: "jsstring option"
  bodyText :: "jsstring promise"
  json :: "AnswerBody promise"
  body :: "ReadableStream option"

text \<open>\<open>res.ok\<close>: the status is in the range 200 to 299.\<close>

definition ok :: "Response \<Rightarrow> bool" where
  "ok res \<longleftrightarrow> 200 \<le> status res \<and> status res \<le> 299"

text \<open>
  A request handed to \<open>fetch\<close>: the address, the \<open>method\<close>, the headers, and as
  payload the object that \<open>JSON.stringify\<close> serialises into the request body.
\<close>

record Request =
  url :: jsstring
  httpMethod :: jsstring
  headers :: "(jsstring \<times> jsstring) list"
  payload :: jsval

section \<open>Sending a question: the streaming version\<close>

text \<open>
  The body of the \<open>for\<close> loop either falls through to the next line or returns from
  \<open>send\<close>; the \<open>try\<close> block either completes or throws, with the state as it is then.
\<close>

datatype 'a flow = Next 'a | Return 'a

datatype 'a completion = Completed 'a | Thrown jsstring 'a

text \<open>
  One iteration of \<open>for (const line of lines)\<close>. \<open>JSON.parse\<close> is a parameter:
  \<open>None\<close> is a SyntaxError. It, the TypeError of reading a property of \<open>null\<close>, and the
  TypeError of a string conversion are caught by the inner \<open>try\<close>, which only logs: the
  loop goes on with the next line. In the error branch the template literal is
  evaluated after \<open>setError\<close>, so when its conversion throws the banner is already set,
  while the message is not rewritten, the busy flag is not cleared and \<open>send\<close> does not
  return. In the token branch the concatenation is the body of the updater; when its
  conversion throws no content is produced, the transcript is left as it was and the
  loop goes on.
\<close>

definition forLine ::
  "(jsstring \<Rightarrow> jsval option) \<Rightarrow> jsstring \<Rightarrow> jsstring \<Rightarrow> AppState \<Rightarrow> AppState flow" where
  "forLine JSON_parse assistantMsgId line st =
     (if startsWith line (lit ''data: '') then
        (let jsonStr = slice 6 line in
         if trim jsonStr = lit ''[DONE]'' then Return (st\<lparr>isSending := False\<rparr>)
         else
           (case JSON_parse jsonStr of
              None \<Rightarrow> Next st
            | Some data \<Rightarrow>
                (case getProp data (lit ''error'') of
                   None \<Rightarrow> Next st
                 | Some err \<Rightarrow>
                     if truthy err then
                       (case toString err of
                          None \<Rightarrow> Next (st\<lparr>error := err\<rparr>)
                        | Some s \<Rightarrow>
                            Return ((updateMessage assistantMsgId
                                      (Content (lit ''Error: '' @ s))
                                      (st\<lparr>error := err\<rparr>))\<lparr>isSending := False\<rparr>))
                     else
                       (case getProp data (lit ''token'') of
                          None \<Rightarrow> Next st
                        | Some token \<Rightarrow>
                            if truthy token then
                              (case toString token of
                                 None \<Rightarrow> Next st
                               | Some t \<Rightarrow>
                                   Next (updateMessage assistantMsgId
                                          (Updater (\<lambda>prev. prev @ t)) st))
                            else Next st))))
      else Next st)"

fun forLines ::
  "(jsstring \<Rightarrow> jsval option) \<Rightarrow> jsstring \<Rightarrow> jsstring list \<Rightarrow> AppState \<Rightarrow> AppState flow" where
  "forLines JSON_parse assistantMsgId [] st = Next st"
| "forLines JSON_parse assistantMsgId (line # lines) st =
     (case forLine JSON_parse assistantMsgId line st of
        Return st' \<Rightarrow> Return st'
      | Next st' \<Rightarrow> forLines JSON_parse assistantMsgId lines st')"

text \<open>
  The three statements that take a chunk in: decode it onto the buffer, split the
  buffer on the blank line, keep the last piece as the new buffer. The result is the
  lines to interpret, the decoder and the buffer.
\<close>

definition feed ::
  "TextDecoder \<Rightarrow> jsstring \<Rightarrow> byte list \<Rightarrow> jsstring list \<times> TextDecoder \<times> jsstring" where
  "feed decoder buffer val =
     (let (s, decoder') = decode decoder val;
          buffer1 = buffer @ s;
          (popped, lines) = pop (split buffer1 blankLine);
          buffer2 = (case popped of None \<Rightarrow> [] | Some l \<Rightarrow> if l = [] then [] else l)
      in (lines, decoder', buffer2))"

text \<open>
  \<open>while (true)\<close>: read; on the end of the data leave the loop and clear the busy flag;
  a failing read throws.
\<close>

fun readLoop ::
  "(jsstring \<Rightarrow> jsval option) \<Rightarrow> jsstring \<Rightarrow> byte list list \<Rightarrow> stream_end \<Rightarrow>
   TextDecoder \<Rightarrow> jsstring \<Rightarrow> AppState \<Rightarrow> AppState completion" where
  "readLoop JSON_parse assistantMsgId [] fin decoder buffer st =
     (case fin of
        EndOfData \<Rightarrow> Completed (st\<lparr>isSending := False\<rparr>)
      | ReadFailure msg \<Rightarrow> Thrown msg st)"
| "readLoop JSON_parse assistantMsgId (val # rest) fin decoder buffer st =
     (let (lines, decoder', buffer') = feed decoder buffer val
      in case forLines JSON_parse assistantMsgId lines st of
           Return st' \<Rightarrow> Completed st'
         | Next st' \<Rightarrow> readLoop JSON_parse assistantMsgId rest fin decoder' buffer' st')"

definition noAnswer :: jsstring where
  "noAnswer = lit ''No answer returned by server.''"

text \<open>
  The text the \<open>catch\<close> block puts before the message. The source file holds the three
  characters U+00E2, U+20AC, U+201D after \<open>Sorry\<close>.
\<close>

definition failurePrefix :: jsstring where
  "failurePrefix =
     lit ''Sorry '' @ [0xE2, 0x20AC, 0x201D] @ lit '' I hit an error talking to the server.''
       @ blankLine"

definition tryBlock ::
  "(jsstring \<Rightarrow> jsval option) \<Rightarrow> stamp \<Rightarrow> Response promise \<Rightarrow> AppState \<Rightarrow> AppState completion" where
  "tryBlock JSON_parse replyStamp fetched st =
     (case fetched of
        Rejected msg \<Rightarrow> Thrown msg st
      | Resolved res \<Rightarrow>
          if \<not> ok res then
            (let t = (case bodyText res of Resolved t \<Rightarrow> t | Rejected e \<Rightarrow> [])
             in Thrown (trim (lit ''Request failed ('' @ decimal (status res) @ lit ''). '' @ t)) st)
          else
            (let ct = (case contentType res of None \<Rightarrow> [] | Some c \<Rightarrow> c) in
             if includes_str ct (lit ''text/event-stream'') then
               (let (assistantMsgId, st1) = addMessage replyStamp Assistant [] st in
                case body res of
                  None \<Rightarrow> Thrown (lit ''Response body is not readable'') st1
                | Some reader \<Rightarrow>
                    readLoop JSON_parse assistantMsgId (chunks reader) (ending reader)
                      newTextDecoder [] st1)
             else
               (case json res of
                  Rejected msg \<Rightarrow> Thrown msg st
                | Resolved data \<Rightarrow>
                    Completed ((snd (addMessage replyStamp Assistant
                                  (case answer data of None \<Rightarrow> noAnswer | Some a \<Rightarrow> a) st))
                               \<lparr>isSending := False\<rparr>))))"

definition catchBlock :: "stamp \<Rightarrow> jsstring \<Rightarrow> AppState \<Rightarrow> AppState" where
  "catchBlock failStamp msg st =
     (snd (addMessage failStamp Assistant (failurePrefix @ msg) (st\<lparr>error := JStr msg\<rparr>)))
       \<lparr>isSending := False\<rparr>"

text \<open>
  \<open>send\<close> of the streaming version. Its inputs from outside the component: the parser,
  the address, the stamps of the messages it may add (the user's, the one added inside
  \<open>try\<close>, the one added by \<open>catch\<close>) and the outcome of \<open>fetch\<close>. It returns the requests
  issued and the state when it finishes.
\<close>

definition send ::
  "(jsstring \<Rightarrow> jsval option) \<Rightarrow> jsstring \<Rightarrow> stamp \<Rightarrow> stamp \<Rightarrow> stamp \<Rightarrow>
   Response promise \<Rightarrow> AppState \<Rightarrow> Request list \<times> AppState" where
  "send JSON_parse askUrl userStamp replyStamp failStamp fetched st =
     (let trimmed = trim (input st) in
      if trimmed = [] \<or> isSending st then ([], st)
      else
        (let st1 = st\<lparr>error := JNull\<rparr>;
             st2 = snd (addMessage userStamp User trimmed st1);
             st3 = st2\<lparr>input := []\<rparr>;
             st4 = st3\<lparr>isSending := True\<rparr>;
             request =
               \<lparr>url = askUrl, httpMethod = lit ''POST'',
                headers = [(lit ''Content-Type'', lit ''application/json'')],
                payload = JObj [(lit ''message'', JStr trimmed),
                                (lit ''documentId'',
                                   (case documentId st of None \<Rightarrow> JNull | Some d \<Rightarrow> JStr d)),
                                (lit ''stream'', JBool False)]\<rparr>
         in ([request],
             case tryBlock JSON_parse replyStamp fetched st4 of
               Completed st' \<Rightarrow> st'
             | Thrown msg st' \<Rightarrow> catchBlock failStamp msg st')))"

section \<open>Sending a question: the single-shot version\<close>

text \<open>
  \<open>send\<close> of \<open>src/App.tsx\<close>: no streaming branch, and the busy flag is cleared in
  \<open>finally\<close>. The second stamp is for the one assistant message, added by \<open>try\<close> or by
  \<open>catch\<close>.
\<close>

definition App_tryBlock :: "stamp \<Rightarrow> Response promise \<Rightarrow> AppState \<Rightarrow> AppState completion" where
  "App_tryBlock replyStamp fetched st =
     (case fetched of
        Rejected msg \<Rightarrow> Thrown msg st
      | Resolved res \<Rightarrow>
          if \<not> ok res then
            (let t = (case bodyText res of Resolved t \<Rightarrow> t | Rejected e \<Rightarrow> [])
             in Thrown (trim (lit ''Request failed ('' @ decimal (status res) @ lit ''). '' @ t)) st)
          else
            (case json res of
               Rejected msg \<Rightarrow> Thrown msg st
             | Resolved data \<Rightarrow>
                 Completed (snd (addMessage replyStamp Assistant
                              (case answer data of None \<Rightarrow> noAnswer | Some a \<Rightarrow> a) st))))"

definition App_send ::
  "jsstring \<Rightarrow> stamp \<Rightarrow> stamp \<Rightarrow> Response promise \<Rightarrow> AppState \<Rightarrow> Request list \<times> AppState" where
  "App_send askUrl userStamp replyStamp fetched st =
     (let trimmed = trim (input st) in
      if trimmed = [] \<or> isSending st then ([], st)
      else
        (let st1 = st\<lparr>error := JNull\<rparr>;
             st2 = snd (addMessage userStamp User trimmed st1);
             st3 = st2\<lparr>input := []\<rparr>;
             st4 = st3\<lparr>isSending := True\<rparr>;
             request =
               \<lparr>url = askUrl, httpMethod = lit ''POST'',
                headers = [(lit ''Content-Type'', lit ''application/json'')],
                payload = JObj [(lit ''message'', JStr trimmed),
                                (lit ''documentId'',
                                   (case documentId st of None \<Rightarrow> JNull | Some d \<Rightarrow> JStr d))]\<rparr>;
             st5 = (case App_tryBlock replyStamp fetched st4 of
                      Completed st' \<Rightarrow> st'
                    | Thrown msg st' \<Rightarrow>
                        snd (addMessage replyStamp Assistant (failurePrefix @ msg)
                               (st'\<lparr>error := JStr msg\<rparr>)))
         in ([request], st5\<lparr>isSending := False\<rparr>)))"

section \<open>Notions used in the statements\<close>

text \<open>
  All the lines that the read loop hands to the interpreter over a sequence of chunks,
  when no line makes it return.
\<close>

fun allLines :: "TextDecoder \<Rightarrow> jsstring \<Rightarrow> byte list list \<Rightarrow> jsstring list" where
  "allLines decoder buffer [] = []"
| "allLines decoder buffer (val # rest) =
     (let (lines, decoder', buffer') = feed decoder buffer val
      in lines @ allLines decoder' buffer' rest)"

text \<open>The content of the buffer after a sequence of chunks.\<close>

fun lastBuffer :: "TextDecoder \<Rightarrow> jsstring \<Rightarrow> byte list list \<Rightarrow> jsstring" where
  "lastBuffer decoder buffer [] = buffer"
| "lastBuffer decoder buffer (val # rest) =
     (let (lines, decoder', buffer') = feed decoder buffer val
      in lastBuffer decoder' buffer' rest)"

text \<open>How the read loop ends once the lines of all chunks have been interpreted.\<close>

definition afterLines :: "stream_end \<Rightarrow> AppState flow \<Rightarrow> AppState completion" where
  "afterLines fin r =
     (case r of
        Return s \<Rightarrow> Completed s
      | Next s \<Rightarrow> (case fin of EndOfData \<Rightarrow> Completed (s\<lparr>isSending := False\<rparr>)
                               | ReadFailure msg \<Rightarrow> Thrown msg s))"

definition flowState :: "'a flow \<Rightarrow> 'a" where
  "flowState r = (case r of Next s \<Rightarrow> s | Return s \<Rightarrow> s)"

definition completionState :: "'a completion \<Rightarrow> 'a" where
  "completionState r = (case r of Completed s \<Rightarrow> s | Thrown msg s \<Rightarrow> s)"

text \<open>Inputs on which the statements are run.\<close>

definition exampleState :: AppState where
  "exampleState =
     \<lparr>input = lit '' hello '', messages = [], isSending = False, error = JNull,
      documentId = Some (lit ''doc-1'')\<rparr>"

definition busyState :: AppState where
  "busyState = exampleState\<lparr>isSending := True\<rparr>"

definition askUrl :: jsstring where
  "askUrl = lit ''http://localhost:3000/ask''"

definition stamp1 :: stamp where "stamp1 = (lit ''m1'', 1000)"
definition stamp2 :: stamp where "stamp2 = (lit ''m2'', 1001)"
definition stamp3 :: stamp where "stamp3 = (lit ''m3'', 1002)"

definition jsonResponse :: "jsstring option \<Rightarrow> Response" where
  "jsonResponse a =
     \<lparr>status = 200, contentType = Some (lit ''application/json; charset=utf-8''),
      bodyText = Resolved [], json = Resolved \<lparr>answer = a\<rparr>, body = None\<rparr>"

definition streamResponse :: "byte list list \<Rightarrow> stream_end \<Rightarrow> Response" where
  "streamResponse cs fin =
     \<lparr>status = 200, contentType = Some (lit ''text/event-stream''),
      bodyText = Resolved [], json = Rejected (lit ''Unexpected token d in JSON at position 0''),
      body = Some \<lparr>chunks = cs, ending = fin\<rparr>\<rparr>"

text \<open>ASCII text as the bytes of a response body.\<close>

definition ascii :: "string \<Rightarrow> byte list" where
  "ascii s = map of_char s"

text \<open>
  The state when the read loop starts: the user's message and the empty placeholder
  appended, the input emptied, the banner cleared, the busy flag set. Then the effect
  on the transcript of appending a token to the messages with a given identifier, and of
  showing an error there.
\<close>

definition opened :: "stamp \<Rightarrow> stamp \<Rightarrow> AppState \<Rightarrow> AppState" where
  "opened u r st =
     st\<lparr>error := JNull, input := [], isSending := True,
        messages := messages st @
          [\<lparr>ident = fst u, role = User, content = trim (input st), createdAt = snd u\<rparr>,
           \<lparr>ident = fst r, role = Assistant, content = [], createdAt = snd r\<rparr>]\<rparr>"

definition appended :: "jsstring \<Rightarrow> jsstring \<Rightarrow> AppState \<Rightarrow> AppState" where
  "appended aid t st =
     st\<lparr>messages := map (\<lambda>m. if ident m = aid then m\<lparr>content := content m @ t\<rparr> else m)
                        (messages st)\<rparr>"


text \<open>The event streams of the two scenarios, and one way of cutting the first.\<close>

definition helloBody :: "byte list" where
  \<open>helloBody =
     ascii ''data: {"token":"Hel"}'' @ [0x0A, 0x0A] @
     ascii ''data: {"token":"lo"}'' @ [0x0A, 0x0A] @
     ascii ''data: [DONE]'' @ [0x0A, 0x0A]\<close>


definition partialBody :: "byte list" where
  \<open>partialBody =
     ascii ''data: {"token":"Hel"}'' @ [0x0A, 0x0A] @
     ascii ''data: {"token":"lo"}''\<close>

text \<open>A stream cut inside a two-byte character, before a line feed, and with an empty chunk.\<close>

definition cafeBody :: "byte list" where
  \<open>cafeBody = ascii ''data: {"token":"caf'' @ [0xC3, 0xA9] @ ascii ''"}'' @ [0x0A, 0x0A]\<close>

definition cafeLine :: jsstring where
  \<open>cafeLine = lit ''data: {"token":"caf'' @ [0xE9] @ lit ''"}''\<close>

definition cafeChunks :: "byte list list" where
  \<open>cafeChunks =
     [ascii ''data: {"token":"caf'' @ [0xC3], [0xA9] @ ascii ''"}'' @ [0x0A], [], [0x0A]]\<close>

definition helloChunks :: "byte list list" where
  \<open>helloChunks =
     [ascii ''data: {"tok'',
      ascii ''en":"Hel"}'' @ [0x0A],
      [0x0A] @ ascii ''data: {"token":"lo"}'' @ [0x0A, 0x0A] @ ascii ''data: [DO'',
      ascii ''NE]'' @ [0x0A, 0x0A]]\<close>


section \<open>Splitting, decoding and the read loop\<close>

lemma splitOn_nonempty: "splitOn sep s \<noteq> []"
  by (induction sep s rule: splitOn.induct) (auto split: list.splits)

lemma splitOn_single: "splitOn sep s = [p] \<Longrightarrow> p = s"
  by (induction sep s arbitrary: p rule: splitOn.induct)
     (auto split: if_splits list.splits simp: splitOn_nonempty)

lemma splitOn_short: "length s < length sep \<Longrightarrow> splitOn sep s = [s]"
proof (induction s)
  case Nil
  show ?case by simp
next
  case (Cons c cs)
  have "\<not> prefix sep (c # cs)"
    using Cons.prems by (auto dest: prefix_length_le)
  moreover have "splitOn sep cs = [cs]"
    using Cons by simp
  ultimately show ?case by simp
qed

lemma splitOn_match:
  "sep \<noteq> [] \<Longrightarrow> prefix sep (c # cs) \<Longrightarrow>
   splitOn sep (c # cs) = [] # splitOn sep (drop (length sep) (c # cs))"
  by simp

lemma splitOn_skip:
  "\<not> prefix sep (c # cs) \<Longrightarrow> splitOn sep cs = p # ps \<Longrightarrow>
   splitOn sep (c # cs) = (c # p) # ps"
  by simp

declare splitOn.simps(2) [simp del]

lemma splitOn_last_closed:
  "sep \<noteq> [] \<Longrightarrow> splitOn sep (last (splitOn sep s)) = [last (splitOn sep s)]"
proof (induction sep s rule: splitOn.induct)
  case (1 sep)
  show ?case by simp
next
  case (2 sep c cs)
  show ?case
  proof (cases "prefix sep (c # cs)")
    case True
    with 2 show ?thesis by (simp add: splitOn_match splitOn_nonempty)
  next
    case False
    obtain p ps where X: "splitOn sep cs = p # ps"
      using splitOn_nonempty [of sep cs] by (cases "splitOn sep cs") auto
    note S = splitOn_skip [OF False X]
    show ?thesis
    proof (cases ps)
      case Nil
      with X have "p = cs" by (simp add: splitOn_single)
      with S Nil show ?thesis by simp
    next
      case (Cons q qs)
      with X False 2 S show ?thesis by simp
    qed
  qed
qed

lemma drop_append_le: "n \<le> length xs \<Longrightarrow> drop n (xs @ t) = drop n xs @ t"
  by simp

lemma splitOn_append:
  "sep \<noteq> [] \<Longrightarrow>
   splitOn sep (s @ t) = butlast (splitOn sep s) @ splitOn sep (last (splitOn sep s) @ t)"
proof (induction sep s rule: splitOn.induct)
  case (1 sep)
  show ?case by simp
next
  case (2 sep c cs)
  show ?case
  proof (cases "prefix sep (c # cs)")
    case True
    then have len: "length sep \<le> length (c # cs)" by (rule prefix_length_le)
    from True have pre: "prefix sep (c # (cs @ t))"
      using prefix_prefix [of sep "c # cs" t] by simp
    have dr: "drop (length sep) (c # (cs @ t)) = drop (length sep) (c # cs) @ t"
      using drop_append_le [OF len, of t] by simp
    have "splitOn sep ((c # cs) @ t) = [] # splitOn sep (drop (length sep) (c # cs) @ t)"
      using splitOn_match [OF 2(3) pre] dr by simp
    also have "splitOn sep (drop (length sep) (c # cs) @ t) =
        butlast (splitOn sep (drop (length sep) (c # cs))) @
        splitOn sep (last (splitOn sep (drop (length sep) (c # cs))) @ t)"
      using 2(1) True 2(3) by blast
    finally show ?thesis
      using splitOn_match [OF 2(3) True] by (simp add: splitOn_nonempty)
  next
    case False
    obtain p ps where X: "splitOn sep cs = p # ps"
      using splitOn_nonempty [of sep cs] by (cases "splitOn sep cs") auto
    note S = splitOn_skip [OF False X]
    show ?thesis
    proof (cases ps)
      case Nil
      with X have "p = cs" by (simp add: splitOn_single)
      with S Nil show ?thesis by simp
    next
      case (Cons q qs)
      have "\<not> length cs < length sep"
        using splitOn_short [of cs sep] X Cons by auto
      then have len: "length sep \<le> length (c # cs)" by simp
      have npre: "\<not> prefix sep (c # (cs @ t))"
      proof
        assume "prefix sep (c # (cs @ t))"
        then have "prefix sep ((c # cs) @ t)" by simp
        then have "prefix sep (c # cs)"
          using len unfolding prefix_append by (auto dest: prefix_length_le)
        with False show False by simp
      qed
      have IH: "splitOn sep (cs @ t) = butlast (p # ps) @ splitOn sep (last (p # ps) @ t)"
        using 2(2) False 2(3) X by metis
      then have IH': "splitOn sep (cs @ t) = p # (butlast ps @ splitOn sep (last ps @ t))"
        using Cons by simp
      have "splitOn sep ((c # cs) @ t) = (c # p) # (butlast ps @ splitOn sep (last ps @ t))"
        using splitOn_skip [OF npre IH'] by simp
      then show ?thesis using S Cons by simp
    qed
  qed
qed

lemma butlast_splitOn_append:
  assumes "sep \<noteq> []"
  shows "butlast (splitOn sep (s @ t)) =
         butlast (splitOn sep s) @ butlast (splitOn sep (last (splitOn sep s) @ t))"
  using splitOn_append [OF assms, of s t] by (simp add: butlast_append splitOn_nonempty)

lemma last_splitOn_append:
  assumes "sep \<noteq> []"
  shows "last (splitOn sep (s @ t)) = last (splitOn sep (last (splitOn sep s) @ t))"
  using splitOn_append [OF assms, of s t] by (simp add: splitOn_nonempty)

lemma decode_append:
  "decode d (a @ b) =
     (let (s1, d1) = decode d a; (s2, d2) = decode d1 b in (s1 @ s2, d2))"
  by (induction a arbitrary: d) (auto split: prod.splits)

lemma forLines_append:
  "forLines P aid (ls @ ms) st =
     (case forLines P aid ls st of Return s \<Rightarrow> Return s | Next s \<Rightarrow> forLines P aid ms s)"
  by (induction ls arbitrary: st) (auto split: flow.splits)

lemma blankLine_nonempty: "blankLine \<noteq> []"
  by (simp add: blankLine_def)

lemma feed_eq:
  "feed d buffer val =
     (butlast (splitOn blankLine (buffer @ fst (decode d val))),
      snd (decode d val),
      last (splitOn blankLine (buffer @ fst (decode d val))))"
  by (simp add: feed_def case_prod_beta Let_def pop_def Spec2Isabelle.split_def blankLine_nonempty splitOn_nonempty)

lemma readLoop_closed:
  "splitOn blankLine buffer = [buffer] \<Longrightarrow>
   readLoop P aid cs fin d buffer st =
     afterLines fin
       (forLines P aid (butlast (splitOn blankLine (buffer @ fst (decode d (concat cs))))) st)"
proof (induction cs arbitrary: d buffer st)
  case Nil
  then show ?case by (simp add: afterLines_def)
next
  case (Cons c cs)
  define s where "s = fst (decode d c)"
  define d' where "d' = snd (decode d c)"
  define pieces where "pieces = splitOn blankLine (buffer @ s)"
  have dec: "fst (decode d (c @ concat cs)) = s @ fst (decode d' (concat cs))"
    by (simp add: decode_append s_def d'_def case_prod_beta)
  have closed: "splitOn blankLine (last pieces) = [last pieces]"
    unfolding pieces_def by (rule splitOn_last_closed [OF blankLine_nonempty])
  have lines: "butlast (splitOn blankLine (buffer @ s @ fst (decode d' (concat cs)))) =
      butlast pieces @ butlast (splitOn blankLine (last pieces @ fst (decode d' (concat cs))))"
    using butlast_splitOn_append [OF blankLine_nonempty, of "buffer @ s"]
    by (simp add: pieces_def)
  show ?case
  proof (cases "forLines P aid (butlast pieces) st")
    case (Return s')
    then show ?thesis
      by (simp add: feed_eq dec lines forLines_append afterLines_def
          flip: s_def d'_def pieces_def)
  next
    case (Next s')
    then show ?thesis
      using Cons.IH [OF closed, of d' s']
      by (simp add: feed_eq dec lines forLines_append flip: s_def d'_def pieces_def)
  qed
qed

lemma allLines_closed:
  "splitOn blankLine buffer = [buffer] \<Longrightarrow>
   allLines d buffer cs = butlast (splitOn blankLine (buffer @ fst (decode d (concat cs))))"
proof (induction cs arbitrary: d buffer)
  case Nil
  then show ?case by simp
next
  case (Cons c cs)
  have closed: "splitOn blankLine (last (splitOn blankLine (buffer @ fst (decode d c)))) =
      [last (splitOn blankLine (buffer @ fst (decode d c)))]"
    by (rule splitOn_last_closed [OF blankLine_nonempty])
  have "butlast (splitOn blankLine ((buffer @ fst (decode d c)) @ fst (decode (snd (decode d c)) (concat cs)))) =
      butlast (splitOn blankLine (buffer @ fst (decode d c))) @
      butlast (splitOn blankLine (last (splitOn blankLine (buffer @ fst (decode d c))) @
        fst (decode (snd (decode d c)) (concat cs))))"
    by (rule butlast_splitOn_append [OF blankLine_nonempty])
  then show ?case
    using Cons.IH [OF closed, of "snd (decode d c)"]
    by (simp add: feed_eq decode_append case_prod_beta)
qed

lemma lastBuffer_closed:
  "splitOn blankLine buffer = [buffer] \<Longrightarrow>
   lastBuffer d buffer cs = last (splitOn blankLine (buffer @ fst (decode d (concat cs))))"
proof (induction cs arbitrary: d buffer)
  case Nil
  then show ?case by simp
next
  case (Cons c cs)
  have closed: "splitOn blankLine (last (splitOn blankLine (buffer @ fst (decode d c)))) =
      [last (splitOn blankLine (buffer @ fst (decode d c)))]"
    by (rule splitOn_last_closed [OF blankLine_nonempty])
  have "last (splitOn blankLine ((buffer @ fst (decode d c)) @ fst (decode (snd (decode d c)) (concat cs)))) =
      last (splitOn blankLine (last (splitOn blankLine (buffer @ fst (decode d c))) @
        fst (decode (snd (decode d c)) (concat cs))))"
    by (rule last_splitOn_append [OF blankLine_nonempty])
  then show ?case
    using Cons.IH [OF closed, of "snd (decode d c)"]
    by (simp add: feed_eq decode_append case_prod_beta)
qed

lemma join_Cons: "xs \<noteq> [] \<Longrightarrow> join sep (x # xs) = x @ sep @ join sep xs"
  by (cases xs) simp_all

lemma join_splitOn: "sep \<noteq> [] \<Longrightarrow> join sep (splitOn sep s) = s"
proof (induction sep s rule: splitOn.induct)
  case (1 sep)
  show ?case by simp
next
  case (2 sep c cs)
  show ?case
  proof (cases "prefix sep (c # cs)")
    case True
    then have "sep @ drop (length sep) (c # cs) = c # cs"
      by (metis append_eq_conv_conj prefix_def)
    with 2(1) [OF conjI [OF 2(3) True] 2(3)] show ?thesis
      by (simp add: splitOn_match [OF 2(3) True] join_Cons splitOn_nonempty)
  next
    case False
    obtain p ps where X: "splitOn sep cs = p # ps"
      using splitOn_nonempty [of sep cs] by (cases "splitOn sep cs") auto
    have "join sep ((c # p) # ps) = c # join sep (p # ps)"
      by (cases ps) simp_all
    with 2(2) [OF _ 2(3)] False X show ?thesis
      by (simp add: splitOn_skip [OF False X])
  qed
qed

section \<open>The streaming branch in closed form\<close>

lemma splitOn_Nil_closed: "splitOn blankLine [] = [[]]"
  by simp

lemma tryBlock_stream:
  "ok res \<Longrightarrow> includes_str (case contentType res of None \<Rightarrow> [] | Some c \<Rightarrow> c) (lit ''text/event-stream'') \<Longrightarrow>
   body res = Some rd \<Longrightarrow>
   tryBlock P r (Resolved res) st =
     afterLines (ending rd)
       (forLines P (fst r)
          (butlast (splitOn blankLine (fst (decode newTextDecoder (concat (chunks rd))))))
          (snd (addMessage r Assistant [] st)))"
  using readLoop_closed [OF splitOn_Nil_closed, of P "fst r" "chunks rd" "ending rd" newTextDecoder
      "snd (addMessage r Assistant [] st)"]
  by (simp add: tryBlock_def addMessage_def Let_def)

lemma tryBlock_chunking:
  "tryBlock P r (Resolved (res\<lparr>body := Some \<lparr>chunks = cs, ending = fin\<rparr>\<rparr>)) st =
   tryBlock P r (Resolved (res\<lparr>body := Some \<lparr>chunks = [concat cs], ending = fin\<rparr>\<rparr>)) st"
proof (cases "ok res \<and> includes_str (case contentType res of None \<Rightarrow> [] | Some c \<Rightarrow> c) (lit ''text/event-stream'')")
  case True
  then show ?thesis
    by (simp add: tryBlock_stream ok_def)
next
  case False
  then show ?thesis
    by (auto simp: tryBlock_def ok_def Let_def)
qed

lemma forLine_Return_idle: "forLine P aid l st = Return s \<Longrightarrow> \<not> isSending s"
  by (auto simp: forLine_def Let_def updateMessage_def split: if_splits option.splits)

lemma forLines_Return_idle: "forLines P aid ls st = Return s \<Longrightarrow> \<not> isSending s"
  by (induction ls arbitrary: st) (auto split: flow.splits dest: forLine_Return_idle)

lemma readLoop_Completed_idle:
  "readLoop P aid cs fin d buffer st = Completed s \<Longrightarrow> \<not> isSending s"
proof (induction cs arbitrary: d buffer st)
  case Nil
  then show ?case by (auto split: stream_end.splits)
next
  case (Cons c cs)
  then show ?case
    by (auto simp: case_prod_beta split: flow.splits dest: forLines_Return_idle)
qed

lemma tryBlock_Completed_idle: "tryBlock P r fetched st = Completed s \<Longrightarrow> \<not> isSending s"
  by (auto simp: tryBlock_def Let_def case_prod_beta
      split: promise.splits if_splits option.splits dest: readLoop_Completed_idle)

lemma catchBlock_idle: "\<not> isSending (catchBlock f msg st)"
  by (simp add: catchBlock_def)

lemma updateMessage_keeps:
  "ident m \<noteq> i \<Longrightarrow> n < length (messages st) \<Longrightarrow> messages st ! n = m \<Longrightarrow>
   n < length (messages (updateMessage i cu st)) \<and> messages (updateMessage i cu st) ! n = m"
  by (simp add: updateMessage_def)

lemma forLine_keeps:
  "ident m \<noteq> aid \<Longrightarrow> n < length (messages st) \<Longrightarrow> messages st ! n = m \<Longrightarrow>
   n < length (messages (flowState (forLine P aid l st))) \<and>
   messages (flowState (forLine P aid l st)) ! n = m"
  by (simp add: forLine_def flowState_def Let_def updateMessage_def split: option.splits)

lemma forLines_keeps:
  "ident m \<noteq> aid \<Longrightarrow> n < length (messages st) \<Longrightarrow> messages st ! n = m \<Longrightarrow>
   n < length (messages (flowState (forLines P aid ls st))) \<and>
   messages (flowState (forLines P aid ls st)) ! n = m"
proof (induction ls arbitrary: st)
  case Nil
  then show ?case by (simp add: flowState_def)
next
  case (Cons l ls)
  note K = forLine_keeps [OF Cons.prems, of P l]
  show ?case
  proof (cases "forLine P aid l st")
    case (Next s)
    with K Cons.IH [OF Cons.prems(1), of s] show ?thesis by (simp add: flowState_def)
  next
    case (Return s)
    with K show ?thesis by (simp add: flowState_def)
  qed
qed

lemma readLoop_keeps:
  "ident m \<noteq> aid \<Longrightarrow> n < length (messages st) \<Longrightarrow> messages st ! n = m \<Longrightarrow>
   n < length (messages (completionState (readLoop P aid cs fin d buffer st))) \<and>
   messages (completionState (readLoop P aid cs fin d buffer st)) ! n = m"
proof (induction cs arbitrary: d buffer st)
  case Nil
  then show ?case by (simp add: completionState_def split: stream_end.splits)
next
  case (Cons c cs)
  note K = forLines_keeps [OF Cons.prems, of P "fst (feed d buffer c)"]
  show ?case
  proof (cases "forLines P aid (fst (feed d buffer c)) st")
    case (Next s)
    with K Cons.IH [OF Cons.prems(1), of s] show ?thesis
      by (simp add: flowState_def case_prod_beta)
  next
    case (Return s)
    with K show ?thesis by (simp add: flowState_def completionState_def case_prod_beta)
  qed
qed

lemma tryBlock_keeps:
  "ident m \<noteq> fst r \<Longrightarrow> n < length (messages st) \<Longrightarrow> messages st ! n = m \<Longrightarrow>
   n < length (messages (completionState (tryBlock P r fetched st))) \<and>
   messages (completionState (tryBlock P r fetched st)) ! n = m"
proof -
  assume A: "ident m \<noteq> fst r" "n < length (messages st)" "messages st ! n = m"
  have B: "n < length (messages (snd (addMessage r Assistant [] st))) \<and>
      messages (snd (addMessage r Assistant [] st)) ! n = m"
    using A by (simp add: addMessage_def nth_append)
  have C: "n < length (messages (snd (addMessage r Assistant c st))) \<and>
      messages (snd (addMessage r Assistant c st)) ! n = m" for c
    using A by (simp add: addMessage_def nth_append)
  show ?thesis
  proof (cases fetched)
    case (Rejected msg)
    with A show ?thesis by (simp add: tryBlock_def completionState_def)
  next
    case (Resolved res)
    show ?thesis
    proof (cases "ok res")
      case False
      with A Resolved show ?thesis by (simp add: tryBlock_def completionState_def Let_def)
    next
      case True
      show ?thesis
      proof (cases "includes_str (case contentType res of None \<Rightarrow> [] | Some c \<Rightarrow> c) (lit ''text/event-stream'')")
        case stream: True
        show ?thesis
        proof (cases "body res")
          case None
          with True stream Resolved B show ?thesis
            by (simp add: tryBlock_def completionState_def Let_def case_prod_beta)
        next
          case (Some rd)
          have "fst (addMessage r Assistant [] st) = fst r" by (simp add: addMessage_def)
          with True stream Resolved Some
            readLoop_keeps [OF A(1) conjunct1 [OF B] conjunct2 [OF B], of P "chunks rd" "ending rd" newTextDecoder "[]"]
          show ?thesis
            by (simp add: tryBlock_def Let_def case_prod_beta)
        qed
      next
        case False
        with True Resolved A C show ?thesis
          by (simp add: tryBlock_def completionState_def Let_def split: promise.splits)
      qed
    qed
  qed
qed


lemma trim_example: "trim (input exampleState) = lit ''hello''"
  by (simp add: exampleState_def trim_def lit_def isWhiteSpace_def)

lemma idle_example: "\<not> isSending exampleState"
  by (simp add: exampleState_def)

lemma unat_le_127: "(b :: byte) \<le> 0x7F \<Longrightarrow> unat b \<le> 127"
  by (simp add: word_le_nat_alt)

lemma utf16_ascii: "(b :: byte) \<le> 0x7F \<Longrightarrow> utf16 (unat b) = [ucast b]"
  using unat_le_127 [of b] by (simp add: utf16_def)

lemma decode_ascii:
  "\<forall>b\<in>set bs. b \<le> 0x7F \<Longrightarrow> utf8 d = utf8_initial \<Longrightarrow>
   decode d bs = (map ucast bs, d\<lparr>bomSeen := bomSeen d \<or> bs \<noteq> []\<rparr>)"
proof (induction bs arbitrary: d)
  case Nil
  then show ?case by simp
next
  case (Cons b bs)
  have b: "b \<le> 0x7F" using Cons.prems(1) by simp
  have h: "utf8_handler (utf8 d) b = (utf8 d, [unat b])"
    using b Cons.prems(2) by (simp add: utf8_handler_def utf8_lead_def utf8_initial_def)
  have ne: "unat b \<noteq> 65279"
    using unat_le_127 [OF b] by linarith
  have s: "serialize (bomSeen d) [unat b] = (True, [ucast b])"
    by (simp add: ne utf16_ascii [OF b])
  have r: "decode \<lparr>utf8 = utf8 d, bomSeen = True\<rparr> bs =
      (map ucast bs, \<lparr>utf8 = utf8 d, bomSeen = True\<rparr>)"
    using Cons.IH [of "\<lparr>utf8 = utf8 d, bomSeen = True\<rparr>"] Cons.prems by simp
  show ?case by (simp add: h s r del: serialize.simps)
qed

lemma hello_text:
  \<open>fst (decode newTextDecoder helloBody) =
     lit ''data: {"token":"Hel"}'' @ blankLine @ lit ''data: {"token":"lo"}'' @ blankLine @
     lit ''data: [DONE]'' @ blankLine\<close>
proof -
  have "\<forall>b\<in>set helloBody. b \<le> 0x7F"
    by (simp add: helloBody_def ascii_def)
  then have "fst (decode newTextDecoder helloBody) = map ucast helloBody"
    by (simp add: decode_ascii newTextDecoder_def)
  then show ?thesis
    by (simp add: helloBody_def ascii_def lit_def blankLine_def)
qed

lemma hello_lines:
  \<open>butlast (splitOn blankLine (fst (decode newTextDecoder helloBody))) =
   [lit ''data: {"token":"Hel"}'', lit ''data: {"token":"lo"}'', lit ''data: [DONE]'']\<close>
  unfolding hello_text by (simp add: lit_def blankLine_def splitOn.simps(2))

lemma send_stream:
  "trim (input st) \<noteq> [] \<Longrightarrow> \<not> isSending st \<Longrightarrow>
   snd (send P a u r f (Resolved (streamResponse cs fin)) st) =
     (case afterLines fin
             (forLines P (fst r)
                (butlast (splitOn blankLine (fst (decode newTextDecoder (concat cs)))))
                (opened u r st)) of
        Completed s \<Rightarrow> s
      | Thrown msg s \<Rightarrow> catchBlock f msg s)"
proof -
  assume g: "trim (input st) \<noteq> []" "\<not> isSending st"
  have o: "ok (streamResponse cs fin)"
    by (simp add: ok_def streamResponse_def)
  have c: "includes_str (case contentType (streamResponse cs fin) of None \<Rightarrow> [] | Some c \<Rightarrow> c)
      (lit ''text/event-stream'')"
    by (simp add: streamResponse_def lit_def)
  have b: "body (streamResponse cs fin) = Some \<lparr>chunks = cs, ending = fin\<rparr>"
    by (simp add: streamResponse_def)
  show ?thesis
    using g by (simp add: send_def Let_def tryBlock_stream [OF o c b] addMessage_def opened_def)
qed
lemma updateMessage_Updater:
  "updateMessage aid (Updater (\<lambda>prev. prev @ t)) st = appended aid t st"
  by (simp add: updateMessage_def appended_def)

lemma parse_error_object:
  \<open>parseJSON (lit ''{"error":{"toString":1}}'') =
     Some (JObj [(lit ''error'', JObj [(lit ''toString'', JNum False (lit ''1''))])])\<close>
  by (simp add: parseJSON_def lit_def idleStep_def isDigit_def isLower_def isNumberChar_def
      number_def)
lemma forLine_token:
  "startsWith line (lit ''data: '') \<Longrightarrow> trim (slice 6 line) \<noteq> lit ''[DONE]'' \<Longrightarrow>
   P (slice 6 line) = Some (JObj [(lit ''token'', JStr t)]) \<Longrightarrow> t \<noteq> [] \<Longrightarrow>
   forLine P aid line st = Next (appended aid t st)"
  by (simp add: forLine_def Let_def updateMessage_Updater lit_def)
lemma forLine_done:
  "startsWith line (lit ''data: '') \<Longrightarrow> trim (slice 6 line) = lit ''[DONE]'' \<Longrightarrow>
   forLine P aid line st = Return (st\<lparr>isSending := False\<rparr>)"
  by (simp add: forLine_def Let_def)


lemma parse_token_Hel:
  \<open>parseJSON (lit ''{"token":"Hel"}'') = Some (JObj [(lit ''token'', JStr (lit ''Hel''))])\<close>
  by (simp add: parseJSON_def lit_def idleStep_def isDigit_def isLower_def)

lemma parse_token_lo:
  \<open>parseJSON (lit ''{"token":"lo"}'') = Some (JObj [(lit ''token'', JStr (lit ''lo''))])\<close>
  by (simp add: parseJSON_def lit_def idleStep_def isDigit_def isLower_def)


lemma parse_oops: \<open>parseJSON (lit ''{oops'') = None\<close>
  by (simp add: parseJSON_def lit_def idleStep_def isDigit_def isLower_def)

lemma parse_note:
  \<open>parseJSON (lit ''{"note":"keep-alive","n":1}'') =
     Some (JObj [(lit ''note'', JStr (lit ''keep-alive'')), (lit ''n'', JNum False (lit ''1''))])\<close>
  by (simp add: parseJSON_def lit_def idleStep_def isDigit_def isLower_def isNumberChar_def
      number_def)

lemma opened_example:
  "opened stamp1 stamp2 exampleState =
     \<lparr>input = [],
      messages = [\<lparr>ident = lit ''m1'', role = User, content = lit ''hello'', createdAt = 1000\<rparr>,
                  \<lparr>ident = lit ''m2'', role = Assistant, content = [], createdAt = 1001\<rparr>],
      isSending = True, error = JNull, documentId = Some (lit ''doc-1'')\<rparr>"
  by (simp add: opened_def trim_example stamp1_def stamp2_def) (simp add: exampleState_def)

lemma forLine_Hel:
  assumes \<open>P (lit ''{"token":"Hel"}'') = Some (JObj [(lit ''token'', JStr (lit ''Hel''))])\<close>
  shows \<open>forLine P aid (lit ''data: {"token":"Hel"}'') s = Next (appended aid (lit ''Hel'') s)\<close>
proof (rule forLine_token)
  have s1: \<open>slice 6 (lit ''data: {"token":"Hel"}'') = lit ''{"token":"Hel"}''\<close>
    by (simp add: slice_def lit_def)
  show \<open>startsWith (lit ''data: {"token":"Hel"}'') (lit ''data: '')\<close>
    by (simp add: startsWith_def lit_def)
  show \<open>trim (slice 6 (lit ''data: {"token":"Hel"}'')) \<noteq> lit ''[DONE]''\<close>
    by (simp add: slice_def trim_def isWhiteSpace_def lit_def)
  show \<open>P (slice 6 (lit ''data: {"token":"Hel"}'')) = Some (JObj [(lit ''token'', JStr (lit ''Hel''))])\<close>
    unfolding s1 by (rule assms)
  show "lit ''Hel'' \<noteq> []"
    by (simp add: lit_def)
qed

lemma forLine_lo:
  assumes \<open>P (lit ''{"token":"lo"}'') = Some (JObj [(lit ''token'', JStr (lit ''lo''))])\<close>
  shows \<open>forLine P aid (lit ''data: {"token":"lo"}'') s = Next (appended aid (lit ''lo'') s)\<close>
proof (rule forLine_token)
  have s2: \<open>slice 6 (lit ''data: {"token":"lo"}'') = lit ''{"token":"lo"}''\<close>
    by (simp add: slice_def lit_def)
  show \<open>startsWith (lit ''data: {"token":"lo"}'') (lit ''data: '')\<close>
    by (simp add: startsWith_def lit_def)
  show \<open>trim (slice 6 (lit ''data: {"token":"lo"}'')) \<noteq> lit ''[DONE]''\<close>
    by (simp add: slice_def trim_def isWhiteSpace_def lit_def)
  show \<open>P (slice 6 (lit ''data: {"token":"lo"}'')) = Some (JObj [(lit ''token'', JStr (lit ''lo''))])\<close>
    unfolding s2 by (rule assms)
  show "lit ''lo'' \<noteq> []"
    by (simp add: lit_def)
qed

lemma forLine_DONE:
  \<open>forLine P aid (lit ''data: [DONE]'') s = Return (s\<lparr>isSending := False\<rparr>)\<close>
proof (rule forLine_done)
  show \<open>startsWith (lit ''data: [DONE]'') (lit ''data: '')\<close>
    by (simp add: startsWith_def lit_def)
  show \<open>trim (slice 6 (lit ''data: [DONE]'')) = lit ''[DONE]''\<close>
    by (simp add: slice_def trim_def isWhiteSpace_def lit_def)
qed

lemma partial_text:
  \<open>fst (decode newTextDecoder partialBody) =
     lit ''data: {"token":"Hel"}'' @ blankLine @ lit ''data: {"token":"lo"}''\<close>
proof -
  have "\<forall>b\<in>set partialBody. b \<le> 0x7F"
    by (simp add: partialBody_def ascii_def)
  then have "fst (decode newTextDecoder partialBody) = map ucast partialBody"
    by (simp add: decode_ascii newTextDecoder_def)
  then show ?thesis
    by (simp add: partialBody_def ascii_def lit_def blankLine_def)
qed

lemma partial_pieces:
  \<open>splitOn blankLine (fst (decode newTextDecoder partialBody)) =
   [lit ''data: {"token":"Hel"}'', lit ''data: {"token":"lo"}'']\<close>
  unfolding partial_text by (simp add: lit_def blankLine_def splitOn.simps(2))

lemma send_stream_loop:
  "trim (input st) \<noteq> [] \<Longrightarrow> \<not> isSending st \<Longrightarrow>
   snd (send P a u r f (Resolved (streamResponse cs fin)) st) =
     (case readLoop P (fst r) cs fin newTextDecoder [] (opened u r st) of
        Completed s \<Rightarrow> s
      | Thrown msg s \<Rightarrow> catchBlock f msg s)"
  using send_stream [of st P a u r f cs fin]
    readLoop_closed [OF splitOn_Nil_closed, of P "fst r" cs fin newTextDecoder "opened u r st"]
  by simp

lemma cafe_lines:
  "butlast (splitOn blankLine (fst (decode newTextDecoder cafeBody))) = [cafeLine]"
proof -
  have "fst (decode newTextDecoder cafeBody) = cafeLine @ blankLine"
    by (simp add: cafeBody_def ascii_def newTextDecoder_def utf8_initial_def utf8_handler_def
        utf8_lead_def utf16_def cafeLine_def lit_def blankLine_def)
  then show ?thesis
    by (simp add: cafeLine_def lit_def blankLine_def splitOn.simps(2))
qed

lemma cafe_first:
  \<open>decode newTextDecoder (ascii ''data: {"token":"caf'' @ [0xC3]) =
     (lit ''data: {"token":"caf'',
      \<lparr>utf8 = \<lparr>codePoint = 3, bytesSeen = 0, bytesNeeded = 1, lowerBoundary = 0x80,
                upperBoundary = 0xBF\<rparr>, bomSeen = True\<rparr>)\<close>
  by (simp add: ascii_def newTextDecoder_def utf8_initial_def utf8_handler_def
      utf8_lead_def utf16_def lit_def)

lemma parse_cafe:
  \<open>parseJSON (lit ''{"token":"caf'' @ [0xE9] @ lit ''"}'') =
     Some (JObj [(lit ''token'', JStr (lit ''caf'' @ [0xE9]))])\<close>
  by (simp add: parseJSON_def lit_def idleStep_def isDigit_def isLower_def)

lemma forLine_cafe:
  "forLine parseJSON aid cafeLine s = Next (appended aid (lit ''caf'' @ [0xE9]) s)"
proof (rule forLine_token)
  have s1: \<open>slice 6 cafeLine = lit ''{"token":"caf'' @ [0xE9] @ lit ''"}''\<close>
    by (simp add: slice_def cafeLine_def lit_def)
  show "startsWith cafeLine (lit ''data: '')"
    by (simp add: startsWith_def cafeLine_def lit_def)
  show "trim (slice 6 cafeLine) \<noteq> lit ''[DONE]''"
    by (simp add: slice_def trim_def isWhiteSpace_def cafeLine_def lit_def)
  show "parseJSON (slice 6 cafeLine) = Some (JObj [(lit ''token'', JStr (lit ''caf'' @ [0xE9]))])"
    unfolding s1 by (rule parse_cafe)
  show "lit ''caf'' @ [0xE9] \<noteq> []"
    by simp
qed

section \<open>The frame decoder\<close>

text \<open>
  C1. However the bytes of a body are cut into chunks, the read loop hands the same lines
  to the interpreter as it does when the whole body arrives as one chunk, and \<open>send\<close>
  finishes with the same requests and the same state, so the same transcript. This holds
  for every body, every way of cutting it (empty chunks included) and either way the
  stream ends.
\<close>

theorem chunking_invariant:
  "allLines newTextDecoder [] cs = allLines newTextDecoder [] [concat cs] \<and>
   send P a u r f (Resolved (res\<lparr>body := Some \<lparr>chunks = cs, ending = fin\<rparr>\<rparr>)) st =
   send P a u r f (Resolved (res\<lparr>body := Some \<lparr>chunks = [concat cs], ending = fin\<rparr>\<rparr>)) st"
proof
  show "allLines newTextDecoder [] cs = allLines newTextDecoder [] [concat cs]"
    by (simp only: allLines_closed [OF splitOn_Nil_closed]) simp
  show "send P a u r f (Resolved (res\<lparr>body := Some \<lparr>chunks = cs, ending = fin\<rparr>\<rparr>)) st =
      send P a u r f (Resolved (res\<lparr>body := Some \<lparr>chunks = [concat cs], ending = fin\<rparr>\<rparr>)) st"
    unfolding send_def tryBlock_chunking [where cs = cs] by (rule refl)
qed

text \<open>
  An instance: the first chunk ends after the first byte of a two-byte character, the
  second between the two line feeds, the third is empty. The first chunk decodes to the
  text before the character, and the transcript ends with the token whole.
\<close>

theorem chunking_invariant_example:
  \<open>concat cafeChunks = cafeBody \<and>
   fst (decode newTextDecoder (hd cafeChunks)) = lit ''data: {"token":"caf'' \<and>
   snd (send parseJSON askUrl stamp1 stamp2 stamp3
          (Resolved (streamResponse cafeChunks EndOfData)) exampleState) =
     \<lparr>input = [],
      messages = [\<lparr>ident = lit ''m1'', role = User, content = lit ''hello'', createdAt = 1000\<rparr>,
                  \<lparr>ident = lit ''m2'', role = Assistant, content = lit ''caf'' @ [0xE9],
                   createdAt = 1001\<rparr>],
      isSending = False, error = JNull, documentId = Some (lit ''doc-1'')\<rparr>\<close>
proof -
  have h: "trim (input exampleState) \<noteq> []"
    by (simp add: trim_example lit_def)
  have c: "concat cafeChunks = cafeBody"
    by (simp add: cafeChunks_def cafeBody_def ascii_def)
  have f: \<open>fst (decode newTextDecoder (hd cafeChunks)) = lit ''data: {"token":"caf''\<close>
    by (simp add: cafeChunks_def cafe_first)
  have r: "(streamResponse [] EndOfData)\<lparr>body := Some \<lparr>chunks = cs, ending = EndOfData\<rparr>\<rparr> =
      streamResponse cs EndOfData" for cs
    by (simp add: streamResponse_def)
  have "send parseJSON askUrl stamp1 stamp2 stamp3
          (Resolved (streamResponse cafeChunks EndOfData)) exampleState =
        send parseJSON askUrl stamp1 stamp2 stamp3
          (Resolved (streamResponse [cafeBody] EndOfData)) exampleState"
    using chunking_invariant [where cs = cafeChunks and P = parseJSON and a = askUrl
        and u = stamp1 and r = stamp2 and f = stamp3 and res = "streamResponse [] EndOfData"
        and fin = EndOfData and st = exampleState]
    by (simp only: r c)
  moreover have "snd (send parseJSON askUrl stamp1 stamp2 stamp3
          (Resolved (streamResponse [cafeBody] EndOfData)) exampleState) =
      (appended (fst stamp2) (lit ''caf'' @ [0xE9]) (opened stamp1 stamp2 exampleState))
        \<lparr>isSending := False\<rparr>"
    by (simp add: send_stream [OF h idle_example] cafe_lines forLine_cafe afterLines_def)
  moreover have "fst stamp2 = lit ''m2''"
    by (simp add: stamp2_def)
  ultimately show ?thesis
    using c f by (simp add: opened_example appended_def lit_def)
qed

text \<open>
  C2. When the data ends, the decoded text of the stream is the lines that were handed
  to the interpreter and the content of the buffer, with blank lines between them: the
  lines are the pieces of the text but the last, and the buffer holds the last piece,
  what follows the last blank line. The loop finishes normally, with the state that
  interpreting those lines produced and the busy flag cleared; the buffer is not
  interpreted and leaves no trace in the state.
\<close>

theorem trailing_partial_frame_dropped:
  "allLines newTextDecoder [] cs =
     butlast (splitOn blankLine (fst (decode newTextDecoder (concat cs)))) \<and>
   lastBuffer newTextDecoder [] cs =
     last (splitOn blankLine (fst (decode newTextDecoder (concat cs)))) \<and>
   join blankLine (allLines newTextDecoder [] cs @ [lastBuffer newTextDecoder [] cs]) =
     fst (decode newTextDecoder (concat cs)) \<and>
   readLoop P aid cs EndOfData newTextDecoder [] st =
     Completed
       (case forLines P aid (allLines newTextDecoder [] cs) st of
          Return s \<Rightarrow> s
        | Next s \<Rightarrow> s\<lparr>isSending := False\<rparr>)"
proof -
  define t where "t = fst (decode newTextDecoder (concat cs))"
  have A: "allLines newTextDecoder [] cs = butlast (splitOn blankLine t)"
    using allLines_closed [OF splitOn_Nil_closed, of newTextDecoder cs] by (simp add: t_def)
  have B: "lastBuffer newTextDecoder [] cs = last (splitOn blankLine t)"
    using lastBuffer_closed [OF splitOn_Nil_closed, of newTextDecoder cs] by (simp add: t_def)
  have C: "join blankLine (butlast (splitOn blankLine t) @ [last (splitOn blankLine t)]) = t"
    using join_splitOn [OF blankLine_nonempty, of t] by (simp add: splitOn_nonempty)
  have D: "readLoop P aid cs EndOfData newTextDecoder [] st =
      Completed (case forLines P aid (butlast (splitOn blankLine t)) st of
          Return s \<Rightarrow> s | Next s \<Rightarrow> s\<lparr>isSending := False\<rparr>)"
    using readLoop_closed [OF splitOn_Nil_closed, of P aid cs EndOfData newTextDecoder st]
    by (simp add: afterLines_def t_def split: flow.splits)
  show ?thesis
    unfolding A B t_def [symmetric] using C D by simp
qed

text \<open>
  An instance: the stream ends inside the second frame. The first token is shown, the
  unfinished frame is not, and \<open>send\<close> finishes without an error.
\<close>

theorem trailing_partial_frame_dropped_example:
  \<open>lastBuffer newTextDecoder [] [partialBody] = lit ''data: {"token":"lo"}'' \<and>
   snd (send parseJSON askUrl stamp1 stamp2 stamp3
          (Resolved (streamResponse [partialBody] EndOfData)) exampleState) =
     \<lparr>input = [],
      messages = [\<lparr>ident = lit ''m1'', role = User, content = lit ''hello'', createdAt = 1000\<rparr>,
                  \<lparr>ident = lit ''m2'', role = Assistant, content = lit ''Hel'', createdAt = 1001\<rparr>],
      isSending = False, error = JNull, documentId = Some (lit ''doc-1'')\<rparr>\<close>
proof -
  have h: "trim (input exampleState) \<noteq> []"
    by (simp add: trim_example lit_def)
  note T = trailing_partial_frame_dropped [of "[partialBody]" parseJSON "fst stamp2"
      "opened stamp1 stamp2 exampleState"]
  have L: \<open>allLines newTextDecoder [] [partialBody] = [lit ''data: {"token":"Hel"}'']\<close>
    and B: \<open>lastBuffer newTextDecoder [] [partialBody] = lit ''data: {"token":"lo"}''\<close>
    using T by (simp_all add: partial_pieces)
  have "readLoop parseJSON (fst stamp2) [partialBody] EndOfData newTextDecoder []
          (opened stamp1 stamp2 exampleState) =
        Completed ((appended (fst stamp2) (lit ''Hel'') (opened stamp1 stamp2 exampleState))
                     \<lparr>isSending := False\<rparr>)"
    using T unfolding L by (simp add: forLine_Hel [where P = parseJSON, OF parse_token_Hel])
  then have "snd (send parseJSON askUrl stamp1 stamp2 stamp3
          (Resolved (streamResponse [partialBody] EndOfData)) exampleState) =
      (appended (fst stamp2) (lit ''Hel'') (opened stamp1 stamp2 exampleState))
        \<lparr>isSending := False\<rparr>"
    by (simp add: send_stream_loop [OF h idle_example])
  moreover have "fst stamp2 = lit ''m2''"
    by (simp add: stamp2_def)
  ultimately show ?thesis
    using B by (simp add: opened_example appended_def lit_def)
qed

section \<open>The busy flag\<close>

text \<open>
  C4. A send that passed the guard (the trimmed input is not empty and the busy flag is
  not set) ends with the busy flag false, whatever \<open>fetch\<close> and the response do: a
  rejected request, a status that is not a success, a single-shot reply, a stream that
  ends, completes, reports an error or fails. Both versions of \<open>send\<close>.
\<close>

theorem send_clears_busy:
  "trim (input st) \<noteq> [] \<Longrightarrow> \<not> isSending st \<Longrightarrow>
   \<not> isSending (snd (send P a u r f fetched st)) \<and>
   \<not> isSending (snd (App_send a u r fetched st))"
  by (auto simp: send_def App_send_def Let_def catchBlock_idle
      split: completion.splits dest: tryBlock_Completed_idle)

theorem send_clears_busy_witness:
  "trim (input exampleState) \<noteq> [] \<and> \<not> isSending exampleState \<and>
   \<not> isSending (snd (send parseJSON askUrl stamp1 stamp2 stamp3
                        (Rejected (lit ''Failed to fetch'')) exampleState)) \<and>
   \<not> isSending (snd (App_send askUrl stamp1 stamp2
                        (Resolved (streamResponse [] EndOfData)) exampleState))"
proof -
  have h: "trim (input exampleState) \<noteq> []"
    by (simp add: trim_example lit_def)
  show ?thesis
    using h idle_example
      send_clears_busy [OF h idle_example, where P = parseJSON and a = askUrl and u = stamp1
        and r = stamp2 and f = stamp3 and fetched = "Rejected (lit ''Failed to fetch'')"]
      send_clears_busy [OF h idle_example, where a = askUrl and u = stamp1
        and r = stamp2 and fetched = "Resolved (streamResponse [] EndOfData)"]
    by simp
qed

text \<open>
  C9. While the busy flag is set, \<open>send\<close> issues no request and returns the state as it
  was: transcript, input text, error banner and busy flag. Both versions.
\<close>

theorem send_while_busy_noop:
  "isSending st \<Longrightarrow>
   send P a u r f fetched st = ([], st) \<and> App_send a u r fetched st = ([], st)"
  by (simp add: send_def App_send_def)

theorem send_while_busy_noop_witness:
  "isSending busyState \<and>
   send parseJSON askUrl stamp1 stamp2 stamp3 (Resolved (jsonResponse None)) busyState =
     ([], busyState) \<and>
   App_send askUrl stamp1 stamp2 (Resolved (jsonResponse None)) busyState = ([], busyState)"
proof -
  have h: "isSending busyState"
    by (simp add: busyState_def)
  show ?thesis
    using h send_while_busy_noop [OF h, where P = parseJSON and a = askUrl and u = stamp1
        and r = stamp2 and f = stamp3 and fetched = "Resolved (jsonResponse None)"]
    by simp
qed

section \<open>The input text\<close>

text \<open>
  C10. \<open>send\<close> works on the trimmed input. When the trimmed input is empty the call
  issues no request and returns the state as it was, busy or not. Otherwise, past the
  guard, the one request issued carries the trimmed text in its \<open>message\<close> field, and
  the message appended to the transcript (at the position that was its end) is the
  user's, with the trimmed text as its content. In the streaming version later events
  rewrite every message that has the placeholder's identifier, so there the transcript
  entry is stated for a placeholder identifier other than the user message's.
\<close>

theorem send_trims_input:
  "(trim (input st) = [] \<longrightarrow>
      send P a u r f fetched st = ([], st) \<and> App_send a u r fetched st = ([], st)) \<and>
   (trim (input st) \<noteq> [] \<and> \<not> isSending st \<longrightarrow>
      fst (send P a u r f fetched st) =
        [\<lparr>url = a, httpMethod = lit ''POST'',
          headers = [(lit ''Content-Type'', lit ''application/json'')],
          payload = JObj [(lit ''message'', JStr (trim (input st))),
                          (lit ''documentId'', (case documentId st of None \<Rightarrow> JNull | Some d \<Rightarrow> JStr d)),
                          (lit ''stream'', JBool False)]\<rparr>] \<and>
      fst (App_send a u r fetched st) =
        [\<lparr>url = a, httpMethod = lit ''POST'',
          headers = [(lit ''Content-Type'', lit ''application/json'')],
          payload = JObj [(lit ''message'', JStr (trim (input st))),
                          (lit ''documentId'', (case documentId st of None \<Rightarrow> JNull | Some d \<Rightarrow> JStr d))]\<rparr>] \<and>
      (fst r \<noteq> fst u \<longrightarrow>
         length (messages st) < length (messages (snd (send P a u r f fetched st))) \<and>
         messages (snd (send P a u r f fetched st)) ! length (messages st) =
           \<lparr>ident = fst u, role = User, content = trim (input st), createdAt = snd u\<rparr>) \<and>
      length (messages st) < length (messages (snd (App_send a u r fetched st))) \<and>
      messages (snd (App_send a u r fetched st)) ! length (messages st) =
        \<lparr>ident = fst u, role = User, content = trim (input st), createdAt = snd u\<rparr>)"
proof (intro conjI impI)
  assume "trim (input st) = []"
  then show "send P a u r f fetched st = ([], st)" by (simp add: send_def)
next
  assume "trim (input st) = []"
  then show "App_send a u r fetched st = ([], st)" by (simp add: App_send_def)
next
  assume "trim (input st) \<noteq> [] \<and> \<not> isSending st"
  then show "fst (send P a u r f fetched st) =
        [\<lparr>url = a, httpMethod = lit ''POST'',
          headers = [(lit ''Content-Type'', lit ''application/json'')],
          payload = JObj [(lit ''message'', JStr (trim (input st))),
                          (lit ''documentId'', (case documentId st of None \<Rightarrow> JNull | Some d \<Rightarrow> JStr d)),
                          (lit ''stream'', JBool False)]\<rparr>]"
    by (simp add: send_def Let_def)
next
  assume "trim (input st) \<noteq> [] \<and> \<not> isSending st"
  then show "fst (App_send a u r fetched st) =
        [\<lparr>url = a, httpMethod = lit ''POST'',
          headers = [(lit ''Content-Type'', lit ''application/json'')],
          payload = JObj [(lit ''message'', JStr (trim (input st))),
                          (lit ''documentId'', (case documentId st of None \<Rightarrow> JNull | Some d \<Rightarrow> JStr d))]\<rparr>]"
    by (simp add: App_send_def Let_def)
next
  assume G: "trim (input st) \<noteq> [] \<and> \<not> isSending st" and D: "fst r \<noteq> fst u"
  define m where "m = \<lparr>ident = fst u, role = User, content = trim (input st), createdAt = snd u\<rparr>"
  define st4 where "st4 = (snd (addMessage u User (trim (input st)) (st\<lparr>error := JNull\<rparr>)))\<lparr>input := [], isSending := True\<rparr>"
  have m: "ident m \<noteq> fst r" using D by (simp add: m_def)
  have n: "length (messages st) < length (messages st4)" by (simp add: st4_def addMessage_def)
  have at: "messages st4 ! length (messages st) = m" by (simp add: st4_def addMessage_def m_def)
  note K = tryBlock_keeps [OF m n at, of P fetched]
  have S: "snd (send P a u r f fetched st) =
      (case tryBlock P r fetched st4 of Completed s \<Rightarrow> s | Thrown msg s \<Rightarrow> catchBlock f msg s)"
    using G by (simp add: send_def Let_def st4_def)
  have "length (messages st) < length (messages (snd (send P a u r f fetched st))) \<and>
      messages (snd (send P a u r f fetched st)) ! length (messages st) = m"
    using K unfolding S
    by (cases "tryBlock P r fetched st4")
       (simp_all add: completionState_def catchBlock_def addMessage_def nth_append)
  then show "length (messages st) < length (messages (snd (send P a u r f fetched st)))"
    and "messages (snd (send P a u r f fetched st)) ! length (messages st) =
           \<lparr>ident = fst u, role = User, content = trim (input st), createdAt = snd u\<rparr>"
    by (simp_all add: m_def)
next
  assume G: "trim (input st) \<noteq> [] \<and> \<not> isSending st"
  then show "length (messages st) < length (messages (snd (App_send a u r fetched st)))"
    by (simp add: App_send_def App_tryBlock_def Let_def addMessage_def
        split: promise.splits completion.splits)
next
  assume G: "trim (input st) \<noteq> [] \<and> \<not> isSending st"
  then show "messages (snd (App_send a u r fetched st)) ! length (messages st) =
        \<lparr>ident = fst u, role = User, content = trim (input st), createdAt = snd u\<rparr>"
    by (simp add: App_send_def App_tryBlock_def Let_def addMessage_def nth_append
        split: promise.splits completion.splits)
qed

theorem send_trims_input_witness:
  "trim (input exampleState) \<noteq> [] \<and> \<not> isSending exampleState \<and> fst stamp2 \<noteq> fst stamp1 \<and>
   payload (hd (fst (send parseJSON askUrl stamp1 stamp2 stamp3
                       (Rejected (lit ''Failed to fetch'')) exampleState))) =
     JObj [(lit ''message'', JStr (lit ''hello'')), (lit ''documentId'', JStr (lit ''doc-1'')),
           (lit ''stream'', JBool False)] \<and>
   messages (snd (send parseJSON askUrl stamp1 stamp2 stamp3
                    (Rejected (lit ''Failed to fetch'')) exampleState)) ! 0 =
     \<lparr>ident = lit ''m1'', role = User, content = lit ''hello'', createdAt = 1000\<rparr> \<and>
   messages (snd (App_send askUrl stamp1 stamp2
                    (Rejected (lit ''Failed to fetch'')) exampleState)) ! 0 =
     \<lparr>ident = lit ''m1'', role = User, content = lit ''hello'', createdAt = 1000\<rparr>"
proof -
  have h: "trim (input exampleState) \<noteq> []"
    by (simp add: trim_example lit_def)
  have d: "fst stamp2 \<noteq> fst stamp1"
    by (simp add: stamp1_def stamp2_def lit_def)
  have i: "messages exampleState = []" "documentId exampleState = Some (lit ''doc-1'')"
    by (simp_all add: exampleState_def)
  show ?thesis
    using h d idle_example
      send_trims_input [where st = exampleState and P = parseJSON and a = askUrl and u = stamp1
        and r = stamp2 and f = stamp3 and fetched = "Rejected (lit ''Failed to fetch'')"]
    by (simp add: trim_example i stamp1_def)
qed

section \<open>The single-shot reply\<close>

text \<open>
  C8. Past the guard, for a response with a success status whose body \<open>res.json()\<close>
  decodes to an object of the declared type: \<open>send\<close> ends with exactly two more
  messages than before, the user's and one assistant message whose content is the
  \<open>answer\<close> field when there is one and the fixed fallback otherwise; the error banner is
  \<open>null\<close> (a missing answer is no error) and the busy flag is false. The streaming
  version does so when the content type does not include \<open>text/event-stream\<close>; the
  result does not depend on the body stream, which is not read. The version without a
  streaming branch does so whatever the content type.
\<close>

theorem single_shot_reply:
  "trim (input st) \<noteq> [] \<Longrightarrow> \<not> isSending st \<Longrightarrow> ok res \<Longrightarrow> json res = Resolved data \<Longrightarrow>
   (\<not> includes_str (case contentType res of None \<Rightarrow> [] | Some c \<Rightarrow> c) (lit ''text/event-stream'') \<longrightarrow>
    snd (send P a u r f (Resolved res) st) =
      st\<lparr>input := [], error := JNull, isSending := False,
         messages := messages st @
           [\<lparr>ident = fst u, role = User, content = trim (input st), createdAt = snd u\<rparr>,
            \<lparr>ident = fst r, role = Assistant,
             content = (case answer data of Some v \<Rightarrow> v | None \<Rightarrow> lit ''No answer returned by server.''),
             createdAt = snd r\<rparr>]\<rparr>) \<and>
   snd (App_send a u r (Resolved res) st) =
      st\<lparr>input := [], error := JNull, isSending := False,
         messages := messages st @
           [\<lparr>ident = fst u, role = User, content = trim (input st), createdAt = snd u\<rparr>,
            \<lparr>ident = fst r, role = Assistant,
             content = (case answer data of Some v \<Rightarrow> v | None \<Rightarrow> lit ''No answer returned by server.''),
             createdAt = snd r\<rparr>]\<rparr>"
  by (simp add: send_def App_send_def tryBlock_def App_tryBlock_def Let_def addMessage_def noAnswer_def
      split: option.splits)

theorem single_shot_reply_witness:
  "trim (input exampleState) \<noteq> [] \<and> \<not> isSending exampleState \<and>
   ok (jsonResponse (Some (lit ''42''))) \<and>
   \<not> includes_str (lit ''application/json; charset=utf-8'') (lit ''text/event-stream'') \<and>
   map content (messages (snd (send parseJSON askUrl stamp1 stamp2 stamp3
       (Resolved (jsonResponse (Some (lit ''42'')))) exampleState))) = [lit ''hello'', lit ''42''] \<and>
   map content (messages (snd (App_send askUrl stamp1 stamp2
       (Resolved (jsonResponse None)) exampleState))) =
     [lit ''hello'', lit ''No answer returned by server.'']"
proof -
  have h: "trim (input exampleState) \<noteq> []"
    by (simp add: trim_example lit_def)
  have o: "ok (jsonResponse x)" for x
    by (simp add: ok_def jsonResponse_def)
  have j: "json (jsonResponse x) = Resolved \<lparr>answer = x\<rparr>" for x
    by (simp add: jsonResponse_def)
  have c: "\<not> includes_str (lit ''application/json; charset=utf-8'') (lit ''text/event-stream'')"
    by (simp add: lit_def)
  have m: "messages exampleState = []"
    by (simp add: exampleState_def)
  show ?thesis
    using h idle_example o c
      single_shot_reply [OF h idle_example o j, where P = parseJSON and a = askUrl and u = stamp1
        and r = stamp2 and f = stamp3 and x1 = "Some (lit ''42'')"]
      single_shot_reply [OF h idle_example o j, where P = parseJSON and a = askUrl and u = stamp1
        and r = stamp2 and f = stamp3 and x1 = None]
    by (simp add: jsonResponse_def trim_example m)
qed

text \<open>
  When \<open>res.json()\<close> rejects instead (the body is not a JSON text, say), the \<open>catch\<close>
  block runs: the banner shows the message and the assistant message is the apology.
\<close>

lemma single_shot_undecodable:
  "trim (input st) \<noteq> [] \<Longrightarrow> \<not> isSending st \<Longrightarrow> ok res \<Longrightarrow> json res = Rejected msg \<Longrightarrow>
   \<not> includes_str (case contentType res of None \<Rightarrow> [] | Some c \<Rightarrow> c) (lit ''text/event-stream'') \<Longrightarrow>
   snd (send P a u r f (Resolved res) st) =
     st\<lparr>input := [], error := JStr msg, isSending := False,
        messages := messages st @
          [\<lparr>ident = fst u, role = User, content = trim (input st), createdAt = snd u\<rparr>,
           \<lparr>ident = fst f, role = Assistant, content = failurePrefix @ msg, createdAt = snd f\<rparr>]\<rparr>"
  by (simp add: send_def tryBlock_def catchBlock_def Let_def addMessage_def)

section \<open>Events of the stream\<close>

text \<open>
  C6. The body \<open>data: {"token":"Hel"}\<close>, \<open>data: {"token":"lo"}\<close>, \<open>data: [DONE]\<close>, each
  followed by a blank line, delivered in any chunks, to a send that passed the guard,
  with a parser that reads the two payloads as objects with those tokens: the read loop
  starts with the empty placeholder as the last message, appends \<open>Hel\<close> and then \<open>lo\<close> to
  the messages that have its identifier and to no other, and returns on the sentinel
  with the busy flag cleared and nothing else changed, however the stream would have
  ended. The placeholder's content is then \<open>Hello\<close>.
\<close>

theorem hello_stream:
  assumes g: "trim (input st) \<noteq> []" "\<not> isSending st"
    and cs: "concat cs = helloBody"
    and P1: \<open>P (lit ''{"token":"Hel"}'') = Some (JObj [(lit ''token'', JStr (lit ''Hel''))])\<close>
    and P2: \<open>P (lit ''{"token":"lo"}'') = Some (JObj [(lit ''token'', JStr (lit ''lo''))])\<close>
  shows "snd (send P a u r f (Resolved (streamResponse cs fin)) st) =
           (appended (fst r) (lit ''lo'') (appended (fst r) (lit ''Hel'') (opened u r st)))
             \<lparr>isSending := False\<rparr> \<and>
         content (last (messages (snd (send P a u r f (Resolved (streamResponse cs fin)) st)))) =
           lit ''Hello''"
proof -
  note l1 = forLine_Hel [where P = P and aid = "fst r", OF P1]
  note l2 = forLine_lo [where P = P and aid = "fst r", OF P2]
  note l3 = forLine_DONE [of P "fst r"]
  have S: "snd (send P a u r f (Resolved (streamResponse cs fin)) st) =
           (appended (fst r) (lit ''lo'') (appended (fst r) (lit ''Hel'') (opened u r st)))
             \<lparr>isSending := False\<rparr>"
    by (simp add: send_stream [OF g] cs hello_lines l1 l2 l3 afterLines_def)
  have "content (last (messages ((appended (fst r) (lit ''lo'') (appended (fst r) (lit ''Hel'') (opened u r st)))
             \<lparr>isSending := False\<rparr>))) = lit ''Hello''"
    by (simp add: appended_def opened_def lit_def)
  with S show ?thesis by simp
qed

theorem hello_stream_witness:
  \<open>trim (input exampleState) \<noteq> [] \<and> \<not> isSending exampleState \<and>
   concat helloChunks = helloBody \<and>
   parseJSON (lit ''{"token":"Hel"}'') = Some (JObj [(lit ''token'', JStr (lit ''Hel''))]) \<and>
   parseJSON (lit ''{"token":"lo"}'') = Some (JObj [(lit ''token'', JStr (lit ''lo''))]) \<and>
   snd (send parseJSON askUrl stamp1 stamp2 stamp3
          (Resolved (streamResponse helloChunks EndOfData)) exampleState) =
     \<lparr>input = [],
      messages = [\<lparr>ident = lit ''m1'', role = User, content = lit ''hello'', createdAt = 1000\<rparr>,
                  \<lparr>ident = lit ''m2'', role = Assistant, content = lit ''Hello'', createdAt = 1001\<rparr>],
      isSending = False, error = JNull, documentId = Some (lit ''doc-1'')\<rparr>\<close>
proof -
  have h: "trim (input exampleState) \<noteq> []"
    by (simp add: trim_example lit_def)
  have c: "concat helloChunks = helloBody"
    by (simp add: helloChunks_def helloBody_def ascii_def)
  have "snd (send parseJSON askUrl stamp1 stamp2 stamp3
          (Resolved (streamResponse helloChunks EndOfData)) exampleState) =
      (appended (fst stamp2) (lit ''lo'') (appended (fst stamp2) (lit ''Hel'')
         (opened stamp1 stamp2 exampleState)))\<lparr>isSending := False\<rparr>"
    using hello_stream [OF h idle_example c parse_token_Hel parse_token_lo] by simp
  moreover have "fst stamp2 = lit ''m2''"
    by (simp add: stamp2_def)
  ultimately show ?thesis
    using h c idle_example parse_token_Hel parse_token_lo
    by (simp add: opened_example appended_def lit_def)
qed



text \<open>
  When the conversion of the \<open>error\<close> field throws instead, the line sets the banner and
  nothing else, and the loop goes on with the busy flag as it was. The line
  \<open>data: {"error":{"toString":1}}\<close> is one.
\<close>

lemma error_frame_unprintable:
  assumes "startsWith line (lit ''data: '')"
    and "trim (slice 6 line) \<noteq> lit ''[DONE]''"
    and "P (slice 6 line) = Some data"
    and "getProp data (lit ''error'') = Some err"
    and "truthy err"
    and "toString err = None"
  shows "forLine P aid line st = Next (st\<lparr>error := err\<rparr>)"
  using assms by (simp add: forLine_def Let_def)

lemma error_frame_unprintable_example:
  \<open>forLine parseJSON aid (lit ''data: {"error":{"toString":1}}'') st =
     Next (st\<lparr>error := JObj [(lit ''toString'', JNum False (lit ''1''))]\<rparr>)\<close>
proof (rule error_frame_unprintable [where P = parseJSON])
  have s: \<open>slice 6 (lit ''data: {"error":{"toString":1}}'') = lit ''{"error":{"toString":1}}''\<close>
    by (simp add: slice_def lit_def)
  show \<open>startsWith (lit ''data: {"error":{"toString":1}}'') (lit ''data: '')\<close>
    by (simp add: startsWith_def lit_def)
  show \<open>trim (slice 6 (lit ''data: {"error":{"toString":1}}'')) \<noteq> lit ''[DONE]''\<close>
    by (simp add: slice_def trim_def isWhiteSpace_def lit_def)
  show \<open>parseJSON (slice 6 (lit ''data: {"error":{"toString":1}}'')) =
      Some (JObj [(lit ''error'', JObj [(lit ''toString'', JNum False (lit ''1''))])])\<close>
    unfolding s by (rule parse_error_object)
  show "getProp (JObj [(lit ''error'', JObj [(lit ''toString'', JNum False (lit ''1''))])])
      (lit ''error'') = Some (JObj [(lit ''toString'', JNum False (lit ''1''))])"
    by simp
  show "truthy (JObj [(lit ''toString'', JNum False (lit ''1''))])"
    by simp
  show "toString (JObj [(lit ''toString'', JNum False (lit ''1''))]) = None"
    by simp
qed

text \<open>
  C7. A data line that reaches the parser (its payload is not the sentinel) and whose
  payload the parser rejects, or parses to a value whose \<open>error\<close> field is absent or
  falsy and whose \<open>token\<close> field is absent or falsy (\<open>null\<close> included, where reading the
  field throws): the line changes nothing, neither transcript nor banner nor busy flag,
  and the loop goes on with the lines after it exactly as if the line had not been
  there.
\<close>

theorem malformed_frame_skipped:
  assumes "startsWith line (lit ''data: '')"
    and "trim (slice 6 line) \<noteq> lit ''[DONE]''"
    and "P (slice 6 line) = None \<or>
         (\<exists>data. P (slice 6 line) = Some data \<and>
            (\<forall>e. getProp data (lit ''error'') = Some e \<longrightarrow> \<not> truthy e) \<and>
            (\<forall>t. getProp data (lit ''token'') = Some t \<longrightarrow> \<not> truthy t))"
  shows "forLine P aid line st = Next st \<and>
         forLines P aid (pre @ line # post) st0 = forLines P aid (pre @ post) st0"
proof -
  have l: "forLine P aid line s = Next s" for s
    using assms by (auto simp: forLine_def Let_def split: option.splits)
  have "forLines P aid (pre @ line # post) st0 = forLines P aid (pre @ post) st0"
    by (simp add: forLines_append l split: flow.splits)
  with l show ?thesis by simp
qed

theorem malformed_frame_skipped_witness:
  \<open>startsWith (lit ''data: {oops'') (lit ''data: '') \<and>
   trim (slice 6 (lit ''data: {oops'')) \<noteq> lit ''[DONE]'' \<and>
   parseJSON (slice 6 (lit ''data: {oops'')) = None \<and>
   forLine parseJSON (lit ''m2'') (lit ''data: {oops'') (opened stamp1 stamp2 exampleState) =
     Next (opened stamp1 stamp2 exampleState) \<and>
   forLines parseJSON (lit ''m2'') [lit ''data: {oops'', lit ''data: {"token":"Hel"}'']
       (opened stamp1 stamp2 exampleState) =
     forLines parseJSON (lit ''m2'') [lit ''data: {"token":"Hel"}'']
       (opened stamp1 stamp2 exampleState) \<and>
   forLine parseJSON (lit ''m2'') (lit ''data: {"note":"keep-alive","n":1}'')
       (opened stamp1 stamp2 exampleState) =
     Next (opened stamp1 stamp2 exampleState)\<close>
proof -
  have s: \<open>slice 6 (lit ''data: {oops'') = lit ''{oops''\<close>
    \<open>slice 6 (lit ''data: {"note":"keep-alive","n":1}'') = lit ''{"note":"keep-alive","n":1}''\<close>
    by (simp_all add: slice_def lit_def)
  have a1: \<open>startsWith (lit ''data: {oops'') (lit ''data: '')\<close>
    and b1: \<open>startsWith (lit ''data: {"note":"keep-alive","n":1}'') (lit ''data: '')\<close>
    by (simp_all add: startsWith_def lit_def)
  have a2: \<open>trim (slice 6 (lit ''data: {oops'')) \<noteq> lit ''[DONE]''\<close>
    and b2: \<open>trim (slice 6 (lit ''data: {"note":"keep-alive","n":1}'')) \<noteq> lit ''[DONE]''\<close>
    by (simp_all add: slice_def trim_def isWhiteSpace_def lit_def)
  have a3: \<open>parseJSON (slice 6 (lit ''data: {oops'')) = None\<close>
    unfolding s by (rule parse_oops)
  then have a3': \<open>parseJSON (slice 6 (lit ''data: {oops'')) = None \<or>
      (\<exists>data. parseJSON (slice 6 (lit ''data: {oops'')) = Some data \<and>
         (\<forall>e. getProp data (lit ''error'') = Some e \<longrightarrow> \<not> truthy e) \<and>
         (\<forall>t. getProp data (lit ''token'') = Some t \<longrightarrow> \<not> truthy t))\<close>
    by simp
  have b3: \<open>parseJSON (slice 6 (lit ''data: {"note":"keep-alive","n":1}'')) = None \<or>
      (\<exists>data. parseJSON (slice 6 (lit ''data: {"note":"keep-alive","n":1}'')) = Some data \<and>
         (\<forall>e. getProp data (lit ''error'') = Some e \<longrightarrow> \<not> truthy e) \<and>
         (\<forall>t. getProp data (lit ''token'') = Some t \<longrightarrow> \<not> truthy t))\<close>
    unfolding s parse_note by (simp add: lit_def)
  show ?thesis
    using a1 a2 a3
      malformed_frame_skipped [where P = parseJSON and line = "lit ''data: {oops''"
        and aid = "lit ''m2''" and st = "opened stamp1 stamp2 exampleState" and pre = "[]"
        and post = \<open>[lit ''data: {"token":"Hel"}'']\<close>
        and ?st0.0 = "opened stamp1 stamp2 exampleState", OF a1 a2 a3']
      malformed_frame_skipped [where P = parseJSON
        and line = \<open>lit ''data: {"note":"keep-alive","n":1}''\<close>
        and aid = "lit ''m2''" and st = "opened stamp1 stamp2 exampleState" and pre = "[]"
        and post = "[]" and ?st0.0 = "opened stamp1 stamp2 exampleState", OF b1 b2 b3]
    by simp
qed

section \<open>Clearing the chat\<close>

text \<open>
  C3, as the code has it. \<open>clearChat\<close> empties the transcript, clears the error banner and
  empties the input text; it does not write the busy flag, which keeps the value it had
  (and the document reference is kept too).
\<close>

theorem clearChat_resets:
  "messages (clearChat st) = [] \<and> error (clearChat st) = JNull \<and> input (clearChat st) = [] \<and>
   isSending (clearChat st) = isSending st \<and> documentId (clearChat st) = documentId st"
  by (simp add: clearChat_def)

text \<open>
  C3 as stated asks for the busy flag to be false after \<open>clearChat\<close> whatever the state
  was. Clearing while a send is in flight leaves it set.
\<close>

theorem clearChat_keeps_busy:
  "isSending (clearChat \<lparr>input = lit ''hi'', messages = [], isSending = True, error = JNull,
                          documentId = None\<rparr>)"
  by (simp add: clearChat_def)

end
